theory Spec2Isabelle
  imports Complex_Main
begin

section \<open>Values shared by the models\<close>

text \<open>
  A JavaScript \<open>number\<close> is modelled as a real: the arithmetic of the source is read
  exactly, rounding is not part of the model. A 2-D vector (\<open>{x, y}\<close>,
  \<open>Phaser.Math.Vector2\<close>, \<open>RAPIER.Vector2\<close>) is a pair of reals. A property that is
  \<open>undefined\<close> on some objects is an \<open>option\<close> with \<open>None\<close> for \<open>undefined\<close>.
\<close>

type_synonym vec2 = "real \<times> real"

datatype js_error = TypeError

section \<open>The memento triad (src/game/memento/MementoConcept.ts)\<close>

subsection \<open>Data\<close>

text \<open>
  What the memento code reads and writes of a \<open>RAPIER.RigidBody\<close>: its handle,
  \<open>translation()\<close>, \<open>linvel()\<close> and \<open>rotation()\<close>.
\<close>

record rigid_body =
  rb_handle :: nat
  rb_translation :: vec2
  rb_linvel :: vec2
  rb_rotation :: real

text \<open>
  A plank is typed \<open>any\<close> in the source. The constructor of \<open>Memento\<close> reads
  \<open>plank.body\<close> and \<open>plank.userData?.rotations\<close>; \<open>restoreState\<close> reads
  \<open>plank.handle\<close> and \<open>plank.rotations\<close>.
\<close>

record plank =
  body :: rigid_body
  userData_rotations :: "real list option"
  plank_handle :: "nat option"
  plank_rotations :: "real list option"

record ball_state =
  bs_x :: real
  bs_y :: real
  velocityX :: real
  velocityY :: real

record plank_state =
  ps_x :: real
  ps_y :: real
  rotations :: "real list"
  handle :: nat

text \<open>
  The fields of a memento are private and typed, but nothing checks them at run time:
  a malformed memento is one whose \<open>ballState\<close> or \<open>plankStates\<close> is missing.
\<close>

record memento =
  ballState :: "ball_state option"
  plankStates :: "plank_state list option"
  m_time :: real

text \<open>
  Arrays of planks are held by reference. The scene creates one array
  (\<open>this.planks\<close>), hands it to the constructor of the originator, which keeps the
  reference (\<open>this.planks = planks\<close>), and passes the same array to \<open>undo\<close>. A store
  gives the content of each array; a reference is a number. A \<open>pop()\<close> through one
  reference is seen through every other reference to that array.
\<close>

type_synonym plank_store = "nat \<Rightarrow> plank list"

record originator =
  o_ball :: rigid_body
  o_planks :: nat
  planksToRemove :: "nat option list"

record caretaker =
  mementos :: "memento list"
  originator :: originator

text \<open>
  The object a restore or an undo returns: \<open>{time, angle}\<close> on the regular path,
  \<open>{time: 0, handle: -1}\<close> otherwise. A key the object lacks is \<open>None\<close>.
\<close>

record restore_result =
  res_time :: real
  res_angle :: "real list option"
  res_handle :: "int option"

definition sentinel :: restore_result where
  "sentinel = \<lparr>res_time = 0, res_angle = None, res_handle = Some (- 1)\<rparr>"

subsection \<open>Memento and Originator\<close>

definition Memento :: "rigid_body \<Rightarrow> plank list \<Rightarrow> real \<Rightarrow> memento" where
  "Memento ball planks t =
     \<lparr>ballState = Some
        \<lparr>bs_x = fst (rb_translation ball),
         bs_y = snd (rb_translation ball),
         velocityX = fst (rb_linvel ball),
         velocityY = snd (rb_linvel ball)\<rparr>,
      plankStates = Some (map (\<lambda>p.
        \<lparr>ps_x = fst (rb_translation (body p)),
         ps_y = snd (rb_translation (body p)),
         rotations = (case userData_rotations p of None \<Rightarrow> [] | Some rs \<Rightarrow> rs)
                       @ [rb_rotation (body p)],
         handle = rb_handle (body p)\<rparr>) planks),
      m_time = t\<rparr>"

definition saveState :: "plank_store \<Rightarrow> originator \<Rightarrow> real \<Rightarrow> memento" where
  "saveState st orig t = Memento (o_ball orig) (st (o_planks orig)) t"

text \<open>
  The body of the \<open>try\<close> block of \<open>restoreState\<close>. \<open>currentPlanks\<close> is the reference
  passed in. The result is the store and the originator as they stand when the block
  ends, and either the exception that ended it or the object it returns. A \<open>TypeError\<close>
  is raised by a property read on \<open>undefined\<close>: \<open>memento.getBallState()\<close> on a missing
  memento, \<open>ballState.x\<close> (evaluated before \<open>setTranslation\<close> is called),
  \<open>plankStates.length\<close>, and \<open>plank.handle\<close> when \<open>pop()\<close> on an empty array gave
  \<open>undefined\<close>. \<open>pop()\<close> shortens the array itself: when \<open>currentPlanks\<close> is the
  array of the originator, as it is in the scene, the planks of the originator lose
  their last element too.
\<close>

definition restoreState_try ::
  "plank_store \<Rightarrow> originator \<Rightarrow> memento option \<Rightarrow> nat
     \<Rightarrow> plank_store \<times> originator \<times> (js_error + restore_result)" where
  "restoreState_try st orig memento currentPlanks =
     (case memento of
        None \<Rightarrow> (st, orig, Inl TypeError)
      | Some m \<Rightarrow>
          (case ballState m of
             None \<Rightarrow> (st, orig, Inl TypeError)
           | Some bs \<Rightarrow>
               (let orig1 = orig\<lparr>o_ball := (o_ball orig)\<lparr>rb_translation := (bs_x bs, bs_y bs)\<rparr>\<rparr>;
                    orig2 = orig1\<lparr>o_ball :=
                              (o_ball orig1)\<lparr>rb_linvel := (velocityX bs, velocityY bs)\<rparr>\<rparr>
                in (case plankStates m of
                      None \<Rightarrow> (st, orig2, Inl TypeError)
                    | Some pss \<Rightarrow>
                        if length (st currentPlanks) \<ge> length pss then
                          (if st currentPlanks = [] then (st, orig2, Inl TypeError)
                           else
                             (let plank = last (st currentPlanks)
                              in (st(currentPlanks := butlast (st currentPlanks)),
                                  orig2\<lparr>planksToRemove :=
                                          planksToRemove orig2 @ [plank_handle plank]\<rparr>,
                                  Inr \<lparr>res_time = m_time m,
                                       res_angle = plank_rotations plank,
                                       res_handle = None\<rparr>)))
                        else
                          (st, orig2,
                           Inr \<lparr>res_time = m_time m, res_angle = None, res_handle = None\<rparr>)))))"

text \<open>
  \<open>restoreState\<close>: the \<open>catch\<close> clause logs a warning and falls through to
  \<open>return { time: 0, handle: -1 }\<close>.
\<close>

definition restoreState ::
  "plank_store \<Rightarrow> originator \<Rightarrow> memento option \<Rightarrow> nat
     \<Rightarrow> plank_store \<times> originator \<times> restore_result" where
  "restoreState st orig memento currentPlanks =
     (case restoreState_try st orig memento currentPlanks of
        (st', orig', Inl e) \<Rightarrow> (st', orig', sentinel)
      | (st', orig', Inr r) \<Rightarrow> (st', orig', r))"

subsection \<open>Caretaker\<close>

definition save :: "plank_store \<Rightarrow> real \<Rightarrow> caretaker \<Rightarrow> caretaker" where
  "save st t c =
     (let memento = saveState st (originator c) t;
          ms = mementos c @ [memento]
      in c\<lparr>mementos := (if length ms > 1000 then tl ms else ms)\<rparr>)"

text \<open>
  The loop of \<open>undo\<close>: pop from the end while the popped memento has as many plank
  states as there are current planks (the second argument is the content of
  \<open>currentPlanks\<close>, which the loop does not change). It returns the memento that
  ended the loop (\<open>None\<close> when \<open>pop()\<close> returned \<open>undefined\<close>) and the mementos left.
  The read \<open>memento.getPlankStates().length\<close> is outside any \<open>try\<close>.
\<close>

function undo_loop ::
  "memento list \<Rightarrow> plank list \<Rightarrow> js_error + (memento option \<times> memento list)" where
  "undo_loop ms currentPlanks =
     (if ms = [] then Inr (None, [])
      else
        (case plankStates (last ms) of
           None \<Rightarrow> Inl TypeError
         | Some pss \<Rightarrow>
             if length pss = length currentPlanks then undo_loop (butlast ms) currentPlanks
             else Inr (Some (last ms), butlast ms)))"
  by pat_completeness auto
termination
  by (relation "measure (\<lambda>(ms, _). length ms)") auto

definition undo ::
  "plank_store \<Rightarrow> caretaker \<Rightarrow> nat
     \<Rightarrow> js_error + (plank_store \<times> caretaker \<times> restore_result)" where
  "undo st c currentPlanks =
     (if length (mementos c) > 0 then
        (case undo_loop (mementos c) (st currentPlanks) of
           Inl e \<Rightarrow> Inl e
         | Inr (Some m, ms') \<Rightarrow>
             (case restoreState st (originator c) (Some m) currentPlanks of
                (st', orig', r) \<Rightarrow> Inr (st', c\<lparr>mementos := ms', originator := orig'\<rparr>, r))
         | Inr (None, ms') \<Rightarrow> Inr (st, c\<lparr>mementos := ms'\<rparr>, sentinel))
      else Inr (st, c, sentinel))"

text \<open>
  A run of the host between saves: the live ball and planks, which the originator
  holds by reference, move to any state, then \<open>save\<close> is called. Each entry of the
  run gives the store and the originator as they are at the save, and the time passed
  to it.
\<close>

fun run_saves :: "caretaker \<Rightarrow> (plank_store \<times> originator \<times> real) list \<Rightarrow> caretaker" where
  "run_saves c [] = c"
| "run_saves c ((st, orig, t) # ops) = run_saves (save st t (c\<lparr>originator := orig\<rparr>)) ops"

subsection \<open>Examples\<close>

text \<open>
  Concrete inputs for the closed theorems on the memento triad: the ball as \<open>create()\<close> makes it
  (at (0, -4) with velocity (2, 10)), a plank sprite as \<open>placePlankForNote\<close> pushes it
  (a body, a \<open>rotations\<close> array, no \<open>handle\<close> and no \<open>userData\<close> of its own), the
  originator of the scene, whose planks are the array of reference 0, and stores in
  which that array is empty or holds one plank.
\<close>

definition ball_at_start :: rigid_body where
  "ball_at_start = \<lparr>rb_handle = 0, rb_translation = (0, - 4), rb_linvel = (2, 10),
     rb_rotation = 0\<rparr>"

definition ball_later :: rigid_body where
  "ball_later = \<lparr>rb_handle = 0, rb_translation = (1, 2), rb_linvel = (2, 11),
     rb_rotation = 0\<rparr>"

definition sprite_one :: plank where
  "sprite_one = \<lparr>body = \<lparr>rb_handle = 1, rb_translation = (1, 1), rb_linvel = (0, 0),
       rb_rotation = 0.15\<rparr>,
     userData_rotations = None, plank_handle = None, plank_rotations = Some [0.15]\<rparr>"

definition sprite_two :: plank where
  "sprite_two = \<lparr>body = \<lparr>rb_handle = 2, rb_translation = (3, 1), rb_linvel = (0, 0),
       rb_rotation = 0.3\<rparr>,
     userData_rotations = None, plank_handle = None, plank_rotations = Some [0.3]\<rparr>"

definition scene_originator :: originator where
  "scene_originator = \<lparr>o_ball = ball_at_start, o_planks = 0, planksToRemove = []\<rparr>"

definition no_planks :: plank_store where
  "no_planks = (\<lambda>r. [])"

definition one_plank :: plank_store where
  "one_plank = (\<lambda>r. [])(0 := [sprite_one])"

section \<open>Vectors (Phaser.Math.Vector2)\<close>

text \<open>
  The methods of \<open>Phaser.Math.Vector2\<close> the scene calls, as the library defines them.
  Each returns the vector it leaves in the receiver; where the source works on a
  \<open>clone()\<close> the receiver is a fresh copy, and where it does not (\<open>direction.rotate\<close>
  in \<open>placePlankForNote\<close>) the model threads the changed vector on.
\<close>

definition Vector2_add :: "vec2 \<Rightarrow> vec2 \<Rightarrow> vec2" where
  "Vector2_add v src = (fst v + fst src, snd v + snd src)"

definition Vector2_subtract :: "vec2 \<Rightarrow> vec2 \<Rightarrow> vec2" where
  "Vector2_subtract v src = (fst v - fst src, snd v - snd src)"

definition Vector2_multiply :: "vec2 \<Rightarrow> vec2 \<Rightarrow> vec2" where
  "Vector2_multiply v src = (fst v * fst src, snd v * snd src)"

definition Vector2_scale :: "vec2 \<Rightarrow> real \<Rightarrow> vec2" where
  "Vector2_scale v k = (fst v * k, snd v * k)"

definition Vector2_dot :: "vec2 \<Rightarrow> vec2 \<Rightarrow> real" where
  "Vector2_dot v src = fst v * fst src + snd v * snd src"

definition Vector2_lengthSq :: "vec2 \<Rightarrow> real" where
  "Vector2_lengthSq v = fst v * fst v + snd v * snd v"

definition Vector2_distance :: "vec2 \<Rightarrow> vec2 \<Rightarrow> real" where
  "Vector2_distance v src =
     (let dx = fst src - fst v; dy = snd src - snd v in sqrt (dx * dx + dy * dy))"

definition Vector2_normalize :: "vec2 \<Rightarrow> vec2" where
  "Vector2_normalize v =
     (let len = fst v * fst v + snd v * snd v
      in if len > 0 then (fst v * (1 / sqrt len), snd v * (1 / sqrt len)) else v)"

definition Vector2_rotate :: "vec2 \<Rightarrow> real \<Rightarrow> vec2" where
  "Vector2_rotate v delta =
     (cos delta * fst v - sin delta * snd v, sin delta * fst v + cos delta * snd v)"

definition DegToRad :: "real \<Rightarrow> real" where
  "DegToRad degrees = degrees * (pi / 180)"

section \<open>The first scene (MusicMelody, in src/game/memento/MementoConcept.ts)\<close>

subsection \<open>The physics world as the scene uses it\<close>

text \<open>
  Of the RAPIER world the model keeps the bodies and the colliders the scene creates,
  with the properties it sets, and the pairs of intersecting colliders that the engine
  found when it last stepped the world (\<open>narrow_phase\<close>). A handle is the position
  of creation: the scene never removes a body, it only disables colliders. Stepping
  belongs to the engine and is not modelled.
\<close>

datatype shape_type = Ball | Cuboid

datatype shape = BallShape real | CuboidShape real real

fun shape_type_of :: "shape \<Rightarrow> shape_type" where
  "shape_type_of (BallShape r) = Ball"
| "shape_type_of (CuboidShape hx hy) = Cuboid"

datatype body_status = Dynamic | Fixed

datatype collision_types = DEFAULT | FIXED_FIXED | DYNAMIC_FIXED

record collider =
  co_handle :: nat
  co_parent :: nat
  co_shape :: shape
  co_sensor :: bool
  co_enabled :: bool
  co_activeCollisionTypes :: collision_types
  co_restitution :: real

record world =
  bodies :: "(body_status \<times> rigid_body) list"
  colliders :: "collider list"
  narrow_phase :: "(nat \<times> nat) list"

definition createRigidBody ::
  "world \<Rightarrow> body_status \<Rightarrow> vec2 \<Rightarrow> real \<Rightarrow> world \<times> rigid_body" where
  "createRigidBody w status translation rotation =
     (let b = \<lparr>rb_handle = length (bodies w), rb_translation = translation,
               rb_linvel = (0, 0), rb_rotation = rotation\<rparr>
      in (w\<lparr>bodies := bodies w @ [(status, b)]\<rparr>, b))"

text \<open>
  \<open>createCollider(desc, body)\<close>: the descriptor gives the shape, the active collision
  types, the sensor flag and the restitution (0 unless \<open>setRestitution\<close> was called on
  the descriptor); a new collider is enabled.
\<close>

definition createCollider ::
  "world \<Rightarrow> shape \<Rightarrow> collision_types \<Rightarrow> bool \<Rightarrow> real \<Rightarrow> rigid_body \<Rightarrow> world \<times> nat" where
  "createCollider w sh types sens rest b =
     (let h = length (colliders w)
      in (w\<lparr>colliders := colliders w @
              [\<lparr>co_handle = h, co_parent = rb_handle b, co_shape = sh, co_sensor = sens,
                co_enabled = True, co_activeCollisionTypes = types, co_restitution = rest\<rparr>]\<rparr>,
          h))"

definition update_collider :: "world \<Rightarrow> nat \<Rightarrow> (collider \<Rightarrow> collider) \<Rightarrow> world" where
  "update_collider w h f =
     w\<lparr>colliders := map (\<lambda>c. if co_handle c = h then f c else c) (colliders w)\<rparr>"

subsection \<open>The validity check of a candidate plank\<close>

text \<open>
  \<open>world.intersectionPairsWith(collider, f)\<close> calls \<open>f\<close> on every collider that
  forms an intersecting pair with \<open>collider\<close>. The engine finds these pairs while it
  steps the world, and the query reads what the last step found: a collider created
  since then is in no pair yet.
\<close>

definition world_intersectionPairsWith :: "world \<Rightarrow> nat \<Rightarrow> collider list" where
  "world_intersectionPairsWith w h =
     filter (\<lambda>c. (h, co_handle c) \<in> set (narrow_phase w)
                 \<or> (co_handle c, h) \<in> set (narrow_phase w)) (colliders w)"

text \<open>
  \<open>wouldOverlapWithHistory\<close> returns \<open>false\<close> (here \<open>None\<close>) or the new body. Its
  first parameter is the query of the engine. The callback sets \<open>intersectBall\<close> for
  any reported collider whose shape type is \<open>Ball\<close>: the ball's own collider, and the
  fixed sensor balls that \<open>update\<close> leaves at every past position of the ball.
\<close>

definition wouldOverlapWithHistory ::
  "(world \<Rightarrow> nat \<Rightarrow> collider list) \<Rightarrow> world \<Rightarrow> vec2 \<Rightarrow> vec2 \<Rightarrow> vec2 \<Rightarrow> real
     \<Rightarrow> world \<times> rigid_body option" where
  "wouldOverlapWithHistory intersectionPairsWith w plankA plankB plankCenter angle =
     (case createRigidBody w Fixed plankCenter angle of (w1, plankBody) \<Rightarrow>
        (case createCollider w1 (CuboidShape 0.6 0.15) FIXED_FIXED True 0 plankBody of
           (w2, collider) \<Rightarrow>
             (let intersectBall =
                    (\<exists>otherCollider \<in> set (intersectionPairsWith w2 collider).
                       shape_type_of (co_shape otherCollider) = Ball)
              in if intersectBall then
                   (update_collider w2 collider (\<lambda>c. c\<lparr>co_enabled := False\<rparr>), None)
                 else
                   (update_collider w2 collider
                      (\<lambda>c. c\<lparr>co_activeCollisionTypes := DYNAMIC_FIXED, co_sensor := False,
                              co_restitution := 1.1\<rparr>),
                    Some plankBody))))"

subsection \<open>Placing a plank for a note\<close>

text \<open>
  The geometry of one pass of the loop of \<open>placePlankForNote\<close> for an angle that is not
  skipped. \<open>direction.rotate(angle)\<close> rotates \<open>direction\<close> itself and \<open>plankDir\<close> is
  that same object, so the rotated vector is also the \<open>direction\<close> of the next pass: it
  is the first component of the result, followed by the centre and the two ends.
\<close>

definition plank_pose :: "vec2 \<Rightarrow> vec2 \<Rightarrow> real \<Rightarrow> vec2 \<times> vec2 \<times> vec2 \<times> vec2" where
  "plank_pose predictedPosition direction angle =
     (let plankDir = Vector2_rotate direction angle;
          plankCenter = Vector2_add predictedPosition
            (Vector2_multiply plankDir (0.3 + 0.15 * 2 + 1 / 1000, 0.3 + 0.15 * 2 + 1 / 1000));
          plankA = Vector2_add plankCenter
            (Vector2_multiply (Vector2_rotate plankDir (DegToRad 90)) (0.6, 0.6));
          plankB = Vector2_subtract plankCenter
            (Vector2_multiply (Vector2_rotate plankDir (DegToRad 90)) (0.6, 0.6))
      in (plankDir, plankCenter, plankA, plankB))"

text \<open>
  The loop over the shuffled \<open>PLANK_ROTATIONS\<close> (the order is the parameter
  \<open>angles\<close>). It stops at the first candidate the check accepts and pushes a sprite
  for it, whose \<open>body\<close> is the new body and whose \<open>rotations\<close> are the angle followed
  by \<open>passAngles\<close>. The sprite pool and the drawing are left out. The result is the
  world, the planks and \<open>newPlank\<close>.
\<close>

fun place_loop ::
  "(world \<Rightarrow> nat \<Rightarrow> collider list) \<Rightarrow> vec2 \<Rightarrow> real list \<Rightarrow> real list \<Rightarrow> vec2 \<Rightarrow> world
     \<Rightarrow> plank list \<Rightarrow> world \<times> plank list \<times> rigid_body option" where
  "place_loop isect predictedPosition passAngles [] direction w planks = (w, planks, None)"
| "place_loop isect predictedPosition passAngles (angle # angles) direction w planks =
     (if angle \<in> set passAngles then
        place_loop isect predictedPosition passAngles angles direction w planks
      else
        (case plank_pose predictedPosition direction angle of
           (plankDir, plankCenter, plankA, plankB) \<Rightarrow>
             (case wouldOverlapWithHistory isect w plankA plankB plankCenter angle of
                (w', Some newPlank) \<Rightarrow>
                  (w',
                   planks @ [\<lparr>body = newPlank, userData_rotations = None, plank_handle = None,
                              plank_rotations = Some (angle # passAngles)\<rparr>],
                   Some newPlank)
              | (w', None) \<Rightarrow>
                  place_loop isect predictedPosition passAngles angles plankDir w' planks)))"

text \<open>
  The first part of \<open>placePlankForNote\<close>, up to the end of the loop: the direction is
  the normalised current velocity of the ball. (When no plank was placed the source goes
  on to \<open>undo\<close> and tries the note again; that part is not needed here.)
\<close>

definition placePlankForNote_loop ::
  "(world \<Rightarrow> nat \<Rightarrow> collider list) \<Rightarrow> real list \<Rightarrow> vec2 \<Rightarrow> vec2 \<Rightarrow> real list \<Rightarrow> world
     \<Rightarrow> plank list \<Rightarrow> world \<times> plank list \<times> rigid_body option" where
  "placePlankForNote_loop isect shuffled currentPos currentVelocity passAngles w planks =
     place_loop isect currentPos passAngles shuffled (Vector2_normalize currentVelocity) w planks"

definition PLANK_ROTATIONS :: "real list" where
  "PLANK_ROTATIONS = [0, 0.15, - 0.15, 0.6, - 0.6, 0.3, - 0.3, 0.9, - 0.9, 1.1, - 1.1]"

subsection \<open>Distance from a point to a segment\<close>

definition pointToSegmentDistance :: "vec2 \<Rightarrow> vec2 \<Rightarrow> vec2 \<Rightarrow> real" where
  "pointToSegmentDistance lineStart lineEnd point =
     (let lineVec = Vector2_subtract lineEnd lineStart;
          pointVec = Vector2_subtract point lineStart;
          dotProduct = Vector2_dot pointVec lineVec
      in if dotProduct \<le> 0 then Vector2_distance point lineStart
         else
           (let squaredLineLength = Vector2_lengthSq lineVec
            in if dotProduct \<ge> squaredLineLength then Vector2_distance point lineEnd
               else
                 (let projection = Vector2_scale lineVec (dotProduct / squaredLineLength);
                      closestPoint = Vector2_add lineStart projection
                  in Vector2_distance point closestPoint)))"

text \<open>
  For the statement about the segment: the point of the closed segment from \<open>A\<close> to
  \<open>B\<close> at parameter \<open>t\<close> (between 0 and 1), and the z-component of the cross product,
  whose absolute value over the length of \<open>B - A\<close> is the distance to the line.
\<close>

definition segment_point :: "vec2 \<Rightarrow> vec2 \<Rightarrow> real \<Rightarrow> vec2" where
  "segment_point A B t = (fst A + t * (fst B - fst A), snd A + t * (snd B - snd A))"

definition cross_z :: "vec2 \<Rightarrow> vec2 \<Rightarrow> real" where
  "cross_z u v = fst u * snd v - snd u * fst v"

text \<open>
  Handles are given out in order, so in a world the scene has built every collider's
  handle is below the number of colliders, and so are the handles in the pairs of the
  last step. \<open>inert_candidate\<close> is the world as it stands when
  \<open>wouldOverlapWithHistory\<close> asks the engine for the intersections of the candidate:
  the body and its sensor collider have been created and nothing else has been done.
\<close>

definition world_ok :: "world \<Rightarrow> bool" where
  "world_ok w =
     ((\<forall>c \<in> set (colliders w). co_handle c < length (colliders w))
      \<and> (\<forall>p \<in> set (narrow_phase w).
            fst p < length (colliders w) \<and> snd p < length (colliders w)))"

definition inert_candidate :: "world \<Rightarrow> vec2 \<Rightarrow> real \<Rightarrow> world" where
  "inert_candidate w plankCenter angle =
     (case createRigidBody w Fixed plankCenter angle of (w1, plankBody) \<Rightarrow>
        fst (createCollider w1 (CuboidShape 0.6 0.15) FIXED_FIXED True 0 plankBody))"

text \<open>
  A world for the closed theorems: the ball (body 0, a dynamic body at (0, -4) moving
  to the right, with a ball collider of radius 0.3 and restitution 1) and one sensor
  ball of the trail (body 1, fixed, at (0, -4.2)), as \<open>create\<close> and one \<open>update\<close>
  leave them; the last step found the ball on that sensor.
\<close>

definition ball_collider :: collider where
  "ball_collider = \<lparr>co_handle = 0, co_parent = 0, co_shape = BallShape 0.3, co_sensor = False,
     co_enabled = True, co_activeCollisionTypes = DEFAULT, co_restitution = 1\<rparr>"

definition trail_collider :: collider where
  "trail_collider = \<lparr>co_handle = 1, co_parent = 1, co_shape = BallShape 0.3, co_sensor = True,
     co_enabled = True, co_activeCollisionTypes = FIXED_FIXED, co_restitution = 0\<rparr>"

definition example_world :: world where
  "example_world =
     \<lparr>bodies = [(Dynamic, \<lparr>rb_handle = 0, rb_translation = (0, - 4), rb_linvel = (1, 0),
                    rb_rotation = 0\<rparr>),
                (Fixed, \<lparr>rb_handle = 1, rb_translation = (0, - 4.2), rb_linvel = (0, 0),
                    rb_rotation = 0\<rparr>)],
      colliders = [ball_collider, trail_collider],
      narrow_phase = [(0, 1)]\<rparr>"

text \<open>
  The point of a cuboid collider that has the coordinates \<open>local\<close> in the frame of its
  body, for a body at \<open>centre\<close> with rotation \<open>angle\<close>. The cuboid of a plank is
  the set of these points for \<open>local\<close> within 0.6 of 0 in x and 0.15 in y.
\<close>

definition cuboid_point :: "vec2 \<Rightarrow> real \<Rightarrow> vec2 \<Rightarrow> vec2" where
  "cuboid_point centre angle local = Vector2_add centre (Vector2_rotate local angle)"

text \<open>
  An answer of the engine that rejects the first candidate created in
  \<open>example_world\<close> (collider handle 2) and no later one.
\<close>

definition second_only :: "world \<Rightarrow> nat \<Rightarrow> collider list" where
  "second_only w h = (if h = 2 then [ball_collider] else [])"

section \<open>The second scene (MusicMelody with backtracking, src/.tmp/MusicMelody.ts)\<close>

subsection \<open>Data\<close>

text \<open>
  A note of the schedule (only its \<open>time\<close> is read), a plank \<open>{body, sprite, note,
  angle}\<close> without its sprite, and the physics world: the ball and the fixed plank
  bodies, each with the one cuboid collider created with it. \<open>g_next\<close> is the next
  free handle.

  The pose of a plank comes from an angle read out of two arrays. When such a read is
  out of range the angle is \<open>undefined\<close> and every number computed from it is \<open>NaN\<close>:
  the coordinates of a plank and its rotation are options, with \<open>None\<close> for a value
  that is not a number.
\<close>

record midi_note =
  note_time :: real

record plank_body =
  pb_handle :: nat
  pb_translation :: "vec2 option"
  pb_rotation :: "real option"

record g_plank =
  gp_body :: plank_body
  gp_note :: "midi_note option"
  gp_angle :: "real option"

record g_body =
  gb_body :: plank_body
  gb_shape :: shape
  gb_restitution :: real

record gworld =
  g_ball :: rigid_body
  g_bodies :: "g_body list"
  g_next :: nat

text \<open>\<open>WorldStateSnapshot\<close> and \<open>StackState\<close>, field by field.\<close>

record snap_plank =
  sp_position :: "vec2 option"
  sp_angle :: "real option"
  sp_body :: plank_body

record snapshot =
  ballPosition :: vec2
  ballVelocity :: vec2
  snap_planks :: "snap_plank list"
  snap_time :: real

record stack_state =
  noteIndex :: nat
  rotationIndex :: int
  rotationPermutation :: "nat list"
  worldState :: snapshot
  simulationSteps :: nat

text \<open>
  The fields of the scene the generation code uses. A frame of the search is an object
  that the stack holds by reference, and that a driver waiting in
  \<open>simulateUntilNextNote\<close> goes on holding after the frame has left the stack:
  \<open>stateStack\<close> is a list of references (the top is the last), \<open>frames\<close> gives the
  object behind each reference, and \<open>next_frame\<close> is the reference the next new frame
  gets. \<open>clock_reads\<close> and \<open>random_reads\<close> count the calls of \<open>performance.now()\<close>
  and \<open>Math.random()\<close> made so far: the environment gives the value of each call by
  its number.
\<close>

record scene =
  g_world :: gworld
  g_planks :: "g_plank list"
  s_notes :: "midi_note list"
  currentNoteIndex :: nat
  startTime :: real
  stateStack :: "nat list"
  frames :: "nat \<Rightarrow> stack_state"
  next_frame :: nat
  maxPlanksGenerated :: nat
  noImprovementCount :: nat
  isGenerating :: bool
  clock_reads :: nat
  random_reads :: nat

text \<open>
  What the code takes from outside: the physics step, the contact pairs of the ball (the
  callback runs once per pair), the clock, the random numbers (each in [0, 1)), and the
  two methods of the scene that the file leaves out, \<open>checkHistoricalCollisions\<close> and
  \<open>checkBallPlankCollisions\<close>.
\<close>

record env =
  world_step :: "gworld \<Rightarrow> gworld"
  contactPairsWith :: "gworld \<Rightarrow> nat list"
  performance_now :: "nat \<Rightarrow> real"
  Math_random :: "nat \<Rightarrow> real"
  checkHistoricalCollisions :: "scene \<Rightarrow> vec2 option \<Rightarrow> vec2 option \<Rightarrow> bool"
  checkBallPlankCollisions :: "scene \<Rightarrow> scene"

subsection \<open>Constants and helpers\<close>

definition PLANK_HALF_LENGTH :: real where "PLANK_HALF_LENGTH = 0.6"
definition PLANK_WIDTH :: real where "PLANK_WIDTH = 0.15"
definition BALL_RADIUS :: real where "BALL_RADIUS = 0.3"
definition MAX_SIMULATION_STEPS :: nat where "MAX_SIMULATION_STEPS = 200"

text \<open>
  Modelled from the spec: \<open>rotateVector\<close> and \<open>normalizeVector\<close> are among the helper
  methods the file leaves out. The specification has the velocity direction rotated by
  the offset angle and the placement direction rotated by 90 degrees: a rotation by
  \<open>angle\<close> radians, and the vector scaled to length 1 (the zero vector is left as it is).
\<close>

definition rotateVector :: "vec2 \<Rightarrow> real \<Rightarrow> vec2" where
  "rotateVector v angle =
     (fst v * cos angle - snd v * sin angle, fst v * sin angle + snd v * cos angle)"

definition normalizeVector :: "vec2 \<Rightarrow> vec2" where
  "normalizeVector v =
     (let len = sqrt (fst v * fst v + snd v * snd v)
      in if len = 0 then v else (fst v / len, snd v / len))"

text \<open>
  \<open>createRigidBody\<close> of a fixed body followed by \<open>createCollider\<close> of a cuboid of
  half extents \<open>PLANK_HALF_LENGTH\<close> and \<open>PLANK_WIDTH\<close> with restitution 0.9, as
  \<open>restoreWorldState\<close> and \<open>tryPlacePlank\<close> both do.
\<close>

definition g_createPlank ::
  "gworld \<Rightarrow> vec2 option \<Rightarrow> real option \<Rightarrow> gworld \<times> plank_body" where
  "g_createPlank w translation rotation =
     (let plankBody = \<lparr>pb_handle = g_next w, pb_translation = translation,
                       pb_rotation = rotation\<rparr>
      in (w\<lparr>g_bodies := g_bodies w @
              [\<lparr>gb_body = plankBody, gb_shape = CuboidShape PLANK_HALF_LENGTH PLANK_WIDTH,
                gb_restitution = 0.9\<rparr>],
            g_next := g_next w + 1\<rparr>,
          plankBody))"

definition removeRigidBody :: "gworld \<Rightarrow> plank_body \<Rightarrow> gworld" where
  "removeRigidBody w b =
     w\<lparr>g_bodies := filter (\<lambda>x. pb_handle (gb_body x) \<noteq> pb_handle b) (g_bodies w)\<rparr>"

subsection \<open>Saving and restoring the world\<close>

definition saveWorldState :: "env \<Rightarrow> scene \<Rightarrow> snapshot \<times> scene" where
  "saveWorldState E s =
     (\<lparr>ballPosition = rb_translation (g_ball (g_world s)),
       ballVelocity = rb_linvel (g_ball (g_world s)),
       snap_planks = map (\<lambda>p. \<lparr>sp_position = pb_translation (gp_body p),
                                 sp_angle = pb_rotation (gp_body p),
                                 sp_body = gp_body p\<rparr>) (g_planks s),
       snap_time = performance_now E (clock_reads s) - startTime s\<rparr>,
      s\<lparr>clock_reads := clock_reads s + 1\<rparr>)"

text \<open>An array read \<open>xs[i]\<close>: \<open>None\<close> is \<open>undefined\<close>.\<close>

definition js_index :: "'a list \<Rightarrow> int \<Rightarrow> 'a option" where
  "js_index xs i = (if 0 \<le> i \<and> nat i < length xs then Some (xs ! nat i) else None)"

text \<open>
  \<open>restoreWorldState\<close> sets the ball, removes every current plank body, empties
  \<open>planks\<close> and creates a new body for each plank of the snapshot.
\<close>

fun restore_planks :: "scene \<Rightarrow> snap_plank list \<Rightarrow> scene" where
  "restore_planks s [] = s"
| "restore_planks s (plank # rest) =
     (case g_createPlank (g_world s) (sp_position plank) (sp_angle plank) of
        (w', plankBody) \<Rightarrow>
          restore_planks
            (s\<lparr>g_world := w',
               g_planks := g_planks s @
                 [\<lparr>gp_body = plankBody,
                   gp_note = js_index (s_notes s) (int (currentNoteIndex s)),
                   gp_angle = sp_angle plank\<rparr>]\<rparr>)
            rest)"

definition restoreWorldState :: "scene \<Rightarrow> snapshot \<Rightarrow> scene" where
  "restoreWorldState s state =
     (let w1 = (g_world s)\<lparr>g_ball := (g_ball (g_world s))
                  \<lparr>rb_translation := ballPosition state, rb_linvel := ballVelocity state\<rparr>\<rparr>;
          w2 = foldl removeRigidBody w1 (map gp_body (g_planks s))
      in restore_planks (s\<lparr>g_world := w2, g_planks := []\<rparr>) (snap_planks state))"

subsection \<open>The random permutation\<close>

text \<open>
  The loop of \<open>getRandomPermutation\<close>, for \<open>i\<close> from \<open>n - 1\<close> down to 1, swapping
  \<open>array[i]\<close> and \<open>array[j]\<close>; with a random number in [0, 1), \<open>j\<close> is at most
  \<open>i\<close>.
\<close>

fun shuffle_loop :: "env \<Rightarrow> nat \<Rightarrow> nat list \<Rightarrow> nat \<Rightarrow> nat list \<times> nat" where
  "shuffle_loop E 0 array k = (array, k)"
| "shuffle_loop E (Suc i) array k =
     (let j = nat \<lfloor>Math_random E k * real (Suc i + 1)\<rfloor>
      in shuffle_loop E i (array[Suc i := array ! j, j := array ! Suc i]) (k + 1))"

definition getRandomPermutation :: "env \<Rightarrow> nat \<Rightarrow> scene \<Rightarrow> nat list \<times> scene" where
  "getRandomPermutation E n s =
     (case shuffle_loop E (n - 1) [0..<n] (random_reads s) of
        (array, k) \<Rightarrow> (array, s\<lparr>random_reads := k\<rparr>))"

subsection \<open>Simulating forward\<close>

text \<open>
  A write to a frame object, through a reference to it.
\<close>

definition set_frame :: "nat \<Rightarrow> (stack_state \<Rightarrow> stack_state) \<Rightarrow> scene \<Rightarrow> scene" where
  "set_frame r f s = s\<lparr>frames := (frames s)(r := f (frames s r))\<rparr>"

text \<open>
  \<open>simulateUntilNextNote\<close> is an \<open>async\<close> function: every tenth step it awaits a
  promise that a zero timeout resolves. At that point the call stops and gives control
  back to the host; it goes on, with its own \<open>steps\<close> and the frame it was given, when
  the timer fires. Whatever ran in between (a frame of the host calling \<open>update\<close>, the
  timer of another pending call) has changed the scene by then.

  \<open>sim_run\<close> is the loop from a value of \<open>steps\<close> up to the next such await or to
  the \<open>return\<close>; \<open>state\<close> is the reference to the frame. The result \<open>Awaiting steps\<close>
  is the call stopped at the await with that many steps made; resuming it is \<open>sim_run\<close>
  from there, which starts with the test of the loop.
\<close>

datatype sim_result = Returned bool | Awaiting nat

function sim_run :: "env \<Rightarrow> nat \<Rightarrow> nat \<Rightarrow> scene \<Rightarrow> sim_result \<times> scene" where
  "sim_run E steps state s =
     (if steps < MAX_SIMULATION_STEPS then
        (let s1 = set_frame state (\<lambda>f. f\<lparr>simulationSteps := simulationSteps f + 1\<rparr>)
                    (s\<lparr>g_world := world_step E (g_world s)\<rparr>);
             hasCollision = (contactPairsWith E (g_world s1) \<noteq> [])
         in if hasCollision then (Returned False, s1)
            else
              (let currentTime = performance_now E (clock_reads s1) - startTime s1;
                   s2 = s1\<lparr>clock_reads := clock_reads s1 + 1\<rparr>
               in if noteIndex (frames s2 state) < length (s_notes s2)
                     \<and> currentTime \<ge> note_time (s_notes s2 ! noteIndex (frames s2 state))
                  then (Returned True, s2)
                  else
                    (let position = rb_translation (g_ball (g_world s2))
                     in if snd position < - 10 \<or> snd position > 10 then (Returned False, s2)
                        else if (steps + 1) mod 10 = 0 then (Awaiting (steps + 1), s2)
                        else sim_run E (steps + 1) state s2)))
      else (Returned True, s))"
  by pat_completeness auto
termination
  by (relation "measure (\<lambda>(E, steps, state, s). MAX_SIMULATION_STEPS - steps)") auto

declare sim_run.simps [simp del]

definition simulateUntilNextNote :: "env \<Rightarrow> nat \<Rightarrow> scene \<Rightarrow> sim_result \<times> scene" where
  "simulateUntilNextNote E state s = sim_run E 0 state s"

subsection \<open>Trying a placement\<close>

text \<open>
  The centre and the two ends of the plank, as \<open>tryPlacePlank\<close> computes them. With an
  angle that is \<open>undefined\<close> the rotated direction has no number for a coordinate, and
  neither have the centre and the ends, which are sums and products with it.
\<close>

definition tryPlacePlank_pose ::
  "vec2 \<Rightarrow> vec2 \<Rightarrow> real option \<Rightarrow> vec2 option \<times> vec2 option \<times> vec2 option" where
  "tryPlacePlank_pose position velocity angle =
     (case angle of
        None \<Rightarrow> (None, None, None)
      | Some a \<Rightarrow>
          (let direction = normalizeVector velocity;
               plankDirection = rotateVector direction a;
               plankCenter =
                 (fst position + fst plankDirection * (BALL_RADIUS + PLANK_WIDTH + 0.001),
                  snd position + snd plankDirection * (BALL_RADIUS + PLANK_WIDTH + 0.001));
               perpendicular = rotateVector plankDirection (pi / 2);
               plankA = (fst plankCenter + fst perpendicular * PLANK_HALF_LENGTH,
                         snd plankCenter + snd perpendicular * PLANK_HALF_LENGTH);
               plankB = (fst plankCenter - fst perpendicular * PLANK_HALF_LENGTH,
                         snd plankCenter - snd perpendicular * PLANK_HALF_LENGTH)
           in (Some plankCenter, Some plankA, Some plankB)))"

text \<open>
  \<open>tryPlacePlank\<close>, for the frame object \<open>state\<close>. When the rotation index or the
  permutation entry is out of range the angle is \<open>undefined\<close>; the code goes on with
  it, and if the history check lets the candidate through it creates a plank whose pose
  is not a number.
\<close>

definition tryPlacePlank :: "env \<Rightarrow> stack_state \<Rightarrow> scene \<Rightarrow> bool \<times> scene" where
  "tryPlacePlank E state s =
     (let position = rb_translation (g_ball (g_world s));
          velocity = rb_linvel (g_ball (g_world s));
          angle = (case js_index (rotationPermutation state) (rotationIndex state) of
                     None \<Rightarrow> None
                   | Some rotationIndex' \<Rightarrow> js_index PLANK_ROTATIONS (int rotationIndex'))
      in case tryPlacePlank_pose position velocity angle of
           (plankCenter, plankA, plankB) \<Rightarrow>
             if \<not> checkHistoricalCollisions E s plankA plankB then (False, s)
             else
               (case g_createPlank (g_world s) plankCenter angle of
                  (w', plankBody) \<Rightarrow>
                    (True,
                     s\<lparr>g_world := w',
                       g_planks := g_planks s @
                         [\<lparr>gp_body = plankBody,
                           gp_note = js_index (s_notes s) (int (noteIndex state)),
                           gp_angle = angle\<rparr>]\<rparr>)))"

subsection \<open>Backtracking and the driver\<close>

text \<open>
  \<open>rewindCurrentState\<close> pops the frame on top of the stack, whichever it is, and
  restores its snapshot once for each of its simulation steps. \<open>pushNewState\<close> makes a
  new frame object and pushes it.
\<close>

definition rewindCurrentState :: "scene \<Rightarrow> scene" where
  "rewindCurrentState s =
     (if stateStack s = [] then s
      else
        (let state = frames s (last (stateStack s));
             s' = s\<lparr>stateStack := butlast (stateStack s)\<rparr>
         in ((\<lambda>x. restoreWorldState x (worldState state)) ^^ simulationSteps state) s'))"

definition pushNewState :: "env \<Rightarrow> scene \<Rightarrow> scene" where
  "pushNewState E s =
     (case saveWorldState E s of
        (snap, s') \<Rightarrow>
          s'\<lparr>frames := (frames s')(next_frame s' :=
               \<lparr>noteIndex = currentNoteIndex s' + 1, rotationIndex = - 1,
                rotationPermutation = [], worldState = snap, simulationSteps = 0\<rparr>),
             stateStack := stateStack s' @ [next_frame s'],
             next_frame := next_frame s' + 1\<rparr>)"

text \<open>
  The parts of a pass of the loop of \<open>generateWithBacktracking\<close>. \<open>currentState\<close> is
  the reference the driver holds. \<open>try_step\<close> is the pass from \<open>tryPlacePlank\<close> on,
  \<open>after_sim\<close> the pass from the point where \<open>simulateUntilNextNote\<close> has returned
  \<open>success\<close>. The boolean of a result is true when the pass reached \<open>iterations++\<close>.
\<close>

definition try_step :: "env \<Rightarrow> nat \<Rightarrow> scene \<Rightarrow> scene \<times> bool" where
  "try_step E currentState s =
     (case tryPlacePlank E (frames s currentState) s of
        (False, s1) \<Rightarrow>
          (let s2 = set_frame currentState (\<lambda>f. f\<lparr>rotationIndex := rotationIndex f + 1\<rparr>) s1
           in if rotationIndex (frames s2 currentState) \<ge> int (length PLANK_ROTATIONS)
              then (rewindCurrentState s2, False)
              else (s2, False))
      | (True, s1) \<Rightarrow> (pushNewState E s1, True))"

definition after_sim :: "env \<Rightarrow> bool \<Rightarrow> nat \<Rightarrow> scene \<Rightarrow> scene \<times> bool" where
  "after_sim E success currentState s =
     (if \<not> success then (rewindCurrentState s, False)
      else
        (case getRandomPermutation E (length PLANK_ROTATIONS) s of
           (perm, s1) \<Rightarrow>
             try_step E currentState
               (set_frame currentState
                  (\<lambda>f. f\<lparr>rotationPermutation := perm, rotationIndex := 0\<rparr>) s1)))"

definition track_progress :: "scene \<Rightarrow> scene" where
  "track_progress s =
     (if length (g_planks s) > maxPlanksGenerated s
      then s\<lparr>maxPlanksGenerated := length (g_planks s), noImprovementCount := 0\<rparr>
      else s\<lparr>noImprovementCount := noImprovementCount s + 1\<rparr>)"

definition near_best :: "scene \<Rightarrow> bool" where
  "near_best s =
     (real (length (g_planks s)) > real (maxPlanksGenerated s) - 0.1 * real (length (s_notes s)))"

definition reset_progress :: "scene \<Rightarrow> scene" where
  "reset_progress s = s\<lparr>noImprovementCount := 0, maxPlanksGenerated := length (g_planks s)\<rparr>"

text \<open>
  A pass from the head of the loop body. It is completed, counted or not, or it stops
  at the await inside \<open>simulateUntilNextNote\<close>: then the driver waits, holding the
  frame and the steps made. An \<open>await\<close> of a call that has returned is no such stop:
  its continuation runs when the current task of the host ends, before any other frame
  or timer, so nothing else runs in between.
\<close>

datatype pass_result = Completed bool | Stopped nat nat

definition loop_pass :: "env \<Rightarrow> scene \<Rightarrow> pass_result \<times> scene" where
  "loop_pass E s =
     (let s1 = track_progress s
      in if noImprovementCount s1 > 2000 \<and> near_best s1
         then (Completed False, rewindCurrentState s1)
         else
           (let s2 = (if noImprovementCount s1 > 2000 then reset_progress s1 else s1);
                currentState = last (stateStack s2)
            in if rotationIndex (frames s2 currentState) = - 1 then
                 (case simulateUntilNextNote E currentState s2 of
                    (Awaiting steps, s3) \<Rightarrow> (Stopped currentState steps, s3)
                  | (Returned success, s3) \<Rightarrow>
                      (case after_sim E success currentState s3 of
                         (s4, counted) \<Rightarrow> (Completed counted, s4)))
               else
                 (case try_step E currentState s2 of
                    (s3, counted) \<Rightarrow> (Completed counted, s3))))"

text \<open>
  The loop of the driver ends: a pass that counts brings \<open>iterations\<close> nearer to the
  budget, and a pass that is completed without counting either pops a frame or moves
  the top frame to its next rotation. The weight of a frame bounds the passes it can
  still take.
\<close>

definition frame_weight :: "int \<Rightarrow> nat" where
  "frame_weight ri = (if ri \<le> 11 then nat (13 - ri) else 1)"

definition stack_weight :: "scene \<Rightarrow> nat" where
  "stack_weight s =
     sum_list (map (\<lambda>r. frame_weight (rotationIndex (frames s r))) (stateStack s))"

lemma frame_weight_pos: "0 < frame_weight ri"
  by (simp add: frame_weight_def)

lemma frame_weight_succ: "frame_weight (ri + 1) \<le> frame_weight ri"
  unfolding frame_weight_def by (simp; arith)

lemma frame_weight_next: "ri + 1 < 11 \<Longrightarrow> frame_weight (ri + 1) < frame_weight ri"
  by (simp add: frame_weight_def)

lemma weight_mono:
  "\<forall>r. frame_weight (f r) \<le> frame_weight (g r)
     \<Longrightarrow> sum_list (map (\<lambda>r. frame_weight (f r)) xs)
           \<le> sum_list (map (\<lambda>r. frame_weight (g r)) xs)"
  by (induction xs) (simp_all add: add_mono)

lemma weight_strict:
  "\<forall>r. frame_weight (f r) \<le> frame_weight (g r) \<Longrightarrow> r0 \<in> set xs
     \<Longrightarrow> frame_weight (f r0) < frame_weight (g r0)
     \<Longrightarrow> sum_list (map (\<lambda>r. frame_weight (f r)) xs)
           < sum_list (map (\<lambda>r. frame_weight (g r)) xs)"
proof (induction xs)
  case Nil
  then show ?case by simp
next
  case (Cons x xs)
  have le: "sum_list (map (\<lambda>r. frame_weight (f r)) xs)
      \<le> sum_list (map (\<lambda>r. frame_weight (g r)) xs)"
    using Cons.prems(1) by (rule weight_mono)
  show ?case
  proof (cases "x = r0")
    case True
    then show ?thesis using le Cons.prems(3) by simp
  next
    case False
    then have "r0 \<in> set xs" using Cons.prems(2) by simp
    then have "sum_list (map (\<lambda>r. frame_weight (f r)) xs)
        < sum_list (map (\<lambda>r. frame_weight (g r)) xs)"
      using Cons.IH Cons.prems(1,3) by simp
    moreover have "frame_weight (f x) \<le> frame_weight (g x)" using Cons.prems(1) by simp
    ultimately show ?thesis by simp
  qed
qed

lemma weight_butlast:
  "xs \<noteq> [] \<Longrightarrow> sum_list (map (\<lambda>r. frame_weight (g r)) (butlast xs))
     < sum_list (map (\<lambda>r. frame_weight (g r)) xs)"
proof -
  assume "xs \<noteq> []"
  then have "xs = butlast xs @ [last xs]" by simp
  then have "sum_list (map (\<lambda>r. frame_weight (g r)) xs)
      = sum_list (map (\<lambda>r. frame_weight (g r)) (butlast xs)) + frame_weight (g (last xs))"
    by (metis (no_types, lifting) list.simps(8,9) map_append sum_list.Cons sum_list.Nil
        sum_list_append add.right_neutral)
  then show ?thesis using frame_weight_pos [of "g (last xs)"] by simp
qed

lemma restore_planks_keep:
  "stateStack (restore_planks s ps) = stateStack s \<and> frames (restore_planks s ps) = frames s"
proof (induction ps arbitrary: s)
  case Nil
  then show ?case by simp
next
  case (Cons plank rest)
  obtain w' plankBody where
    c: "g_createPlank (g_world s) (sp_position plank) (sp_angle plank) = (w', plankBody)"
    by (cases "g_createPlank (g_world s) (sp_position plank) (sp_angle plank)")
  show ?case
    by (simp add: c Cons.IH)
qed

lemma restoreWorldState_keep:
  "stateStack (restoreWorldState s snap) = stateStack s
   \<and> frames (restoreWorldState s snap) = frames s"
  by (simp add: restoreWorldState_def Let_def restore_planks_keep)

lemma restore_pow_keep:
  "stateStack (((\<lambda>x. restoreWorldState x snap) ^^ n) s) = stateStack s
   \<and> frames (((\<lambda>x. restoreWorldState x snap) ^^ n) s) = frames s"
  by (induction n) (simp_all add: restoreWorldState_keep)

lemma rewind_keep:
  "stateStack (rewindCurrentState s) = butlast (stateStack s)
   \<and> frames (rewindCurrentState s) = frames s"
  by (simp add: rewindCurrentState_def Let_def restore_pow_keep)

lemma getRandomPermutation_keep:
  "getRandomPermutation E n s = (perm, s')
     \<Longrightarrow> stateStack s' = stateStack s \<and> frames s' = frames s"
  by (auto simp add: getRandomPermutation_def split: prod.splits)

lemma tryPlacePlank_keep:
  "tryPlacePlank E state s = (b, s') \<Longrightarrow> stateStack s' = stateStack s \<and> frames s' = frames s"
  by (auto simp add: tryPlacePlank_def Let_def g_createPlank_def
      split: option.splits prod.splits if_splits)

lemma pushNewState_stack: "stateStack (pushNewState E s) = stateStack s @ [next_frame s]"
  by (simp add: pushNewState_def saveWorldState_def)

lemma length_PLANK_ROTATIONS: "length PLANK_ROTATIONS = 11"
  by (simp add: PLANK_ROTATIONS_def)

lemma sim_run_keep:
  "sim_run E steps state s = (res, s')
     \<Longrightarrow> stateStack s' = stateStack s
         \<and> (\<forall>r. rotationIndex (frames s' r) = rotationIndex (frames s r))"
proof (induction E steps state s rule: sim_run.induct)
  case (1 E steps state s)
  note eq = sim_run.simps [of E steps state s]
  let ?s1 = "set_frame state (\<lambda>f. f\<lparr>simulationSteps := simulationSteps f + 1\<rparr>)
               (s\<lparr>g_world := world_step E (g_world s)\<rparr>)"
  let ?s2 = "?s1\<lparr>clock_reads := clock_reads ?s1 + 1\<rparr>"
  have keep2: "stateStack ?s2 = stateStack s"
    "\<forall>r. rotationIndex (frames ?s2 r) = rotationIndex (frames s r)"
    "stateStack ?s1 = stateStack s"
    "\<forall>r. rotationIndex (frames ?s1 r) = rotationIndex (frames s r)"
    by (simp_all add: set_frame_def)
  show ?case
  proof (cases "sim_run E steps state s = sim_run E (steps + 1) state ?s2
      \<and> steps < MAX_SIMULATION_STEPS
      \<and> \<not> contactPairsWith E (g_world ?s1) \<noteq> []
      \<and> \<not> (noteIndex (frames ?s2 state) < length (s_notes ?s2)
              \<and> performance_now E (clock_reads ?s1) - startTime ?s1
                  \<ge> note_time (s_notes ?s2 ! noteIndex (frames ?s2 state)))
      \<and> \<not> (snd (rb_translation (g_ball (g_world ?s2))) < - 10
              \<or> snd (rb_translation (g_ball (g_world ?s2))) > 10)
      \<and> \<not> (steps + 1) mod 10 = 0")
    case True
    then have "stateStack s' = stateStack ?s2
        \<and> (\<forall>r. rotationIndex (frames s' r) = rotationIndex (frames ?s2 r))"
      using "1.IH" [of ?s1 "contactPairsWith E (g_world ?s1) \<noteq> []"
          "performance_now E (clock_reads ?s1) - startTime ?s1" ?s2
          "rb_translation (g_ball (g_world ?s2))"] "1.prems"
      by simp
    then show ?thesis using keep2 by simp
  next
    case False
    then have "s' = s \<or> s' = ?s1 \<or> s' = ?s2"
      using "1.prems" by (auto simp add: eq Let_def split: if_splits)
    then show ?thesis using keep2 by auto
  qed
qed

lemma try_step_weight:
  assumes "try_step E cur s = (s', False)" "stateStack s \<noteq> []" "last (stateStack s) = cur"
  shows "stack_weight s' < stack_weight s"
proof -
  obtain b s1 where t: "tryPlacePlank E (frames s cur) s = (b, s1)"
    by (cases "tryPlacePlank E (frames s cur) s")
  have k1: "stateStack s1 = stateStack s" "frames s1 = frames s"
    using tryPlacePlank_keep [OF t] by simp_all
  have nb: "\<not> b"
    using assms(1) t by (cases b) (simp_all add: try_step_def)
  let ?s2 = "set_frame cur (\<lambda>f. f\<lparr>rotationIndex := rotationIndex f + 1\<rparr>) s1"
  let ?ri = "\<lambda>r. rotationIndex (frames s r)"
  let ?ri2 = "\<lambda>r. rotationIndex (frames ?s2 r)"
  have ri2: "\<And>r. ?ri2 r = (if r = cur then ?ri r + 1 else ?ri r)"
    by (simp add: set_frame_def k1)
  have st2: "stateStack ?s2 = stateStack s" by (simp add: set_frame_def k1)
  have le: "\<forall>r. frame_weight (?ri2 r) \<le> frame_weight (?ri r)"
    by (simp add: ri2 frame_weight_succ)
  have mem: "cur \<in> set (stateStack s)" using assms(2,3) last_in_set by blast
  show ?thesis
  proof (cases "?ri2 cur \<ge> int (length PLANK_ROTATIONS)")
    case True
    then have s': "s' = rewindCurrentState ?s2"
      using assms(1) t nb by (simp add: try_step_def Let_def)
    have "stack_weight s' = sum_list (map (\<lambda>r. frame_weight (?ri2 r)) (butlast (stateStack s)))"
      by (simp add: stack_weight_def s' rewind_keep st2)
    also have "\<dots> < sum_list (map (\<lambda>r. frame_weight (?ri2 r)) (stateStack s))"
      using assms(2) by (rule weight_butlast)
    also have "\<dots> \<le> stack_weight s"
      unfolding stack_weight_def using le by (rule weight_mono)
    finally show ?thesis .
  next
    case False
    then have s': "s' = ?s2"
      using assms(1) t nb by (simp add: try_step_def Let_def)
    have "?ri cur + 1 < 11" using False by (simp add: ri2 length_PLANK_ROTATIONS)
    then have "frame_weight (?ri2 cur) < frame_weight (?ri cur)"
      by (simp add: ri2 frame_weight_next)
    then have "sum_list (map (\<lambda>r. frame_weight (?ri2 r)) (stateStack s))
        < sum_list (map (\<lambda>r. frame_weight (?ri r)) (stateStack s))"
      using le mem by (intro weight_strict) simp_all
    then show ?thesis by (simp add: stack_weight_def s' st2)
  qed
qed

lemma after_sim_weight:
  assumes "after_sim E success cur s = (s', False)" "stateStack s \<noteq> []"
    "last (stateStack s) = cur" "rotationIndex (frames s cur) = - 1"
  shows "stack_weight s' < stack_weight s"
proof (cases success)
  case False
  then have "s' = rewindCurrentState s" using assms(1) by (simp add: after_sim_def)
  then show ?thesis
    using weight_butlast [OF assms(2), of "\<lambda>r. rotationIndex (frames s r)"]
    by (simp add: stack_weight_def rewind_keep)
next
  case True
  obtain perm s1 where gp: "getRandomPermutation E (length PLANK_ROTATIONS) s = (perm, s1)"
    by (cases "getRandomPermutation E (length PLANK_ROTATIONS) s")
  have k1: "stateStack s1 = stateStack s" "frames s1 = frames s"
    using getRandomPermutation_keep [OF gp] by simp_all
  let ?s2 = "set_frame cur (\<lambda>f. f\<lparr>rotationPermutation := perm, rotationIndex := 0\<rparr>) s1"
  have step: "try_step E cur ?s2 = (s', False)"
    using assms(1) True gp by (simp add: after_sim_def)
  have st2: "stateStack ?s2 = stateStack s" by (simp add: set_frame_def k1)
  have "stack_weight s' < stack_weight ?s2"
    using try_step_weight [OF step] assms(2,3) by (simp add: st2)
  also have "stack_weight ?s2 \<le> stack_weight s"
    unfolding stack_weight_def st2
    by (rule weight_mono) (simp add: set_frame_def k1 assms(4) frame_weight_def)
  finally show ?thesis .
qed

lemma track_progress_keep:
  "stateStack (track_progress s) = stateStack s \<and> frames (track_progress s) = frames s"
  by (simp add: track_progress_def)

lemma reset_progress_keep:
  "stateStack (reset_progress s) = stateStack s \<and> frames (reset_progress s) = frames s"
  by (simp add: reset_progress_def)

lemma loop_pass_weight:
  assumes "loop_pass E s = (Completed False, s')" "stateStack s \<noteq> []"
  shows "stack_weight s' < stack_weight s"
proof -
  define s1 where "s1 = track_progress s"
  define s2 where "s2 = (if noImprovementCount s1 > 2000 then reset_progress s1 else s1)"
  define cur where "cur = last (stateStack s2)"
  have k1: "stateStack s1 = stateStack s" "frames s1 = frames s"
    by (simp_all add: s1_def track_progress_keep)
  have k2: "stateStack s2 = stateStack s" "frames s2 = frames s"
    by (simp_all add: s2_def k1 reset_progress_keep)
  have w2: "stack_weight s2 = stack_weight s" by (simp add: stack_weight_def k2)
  have lp: "loop_pass E s =
     (if noImprovementCount s1 > 2000 \<and> near_best s1
      then (Completed False, rewindCurrentState s1)
      else if rotationIndex (frames s2 cur) = - 1 then
        (case simulateUntilNextNote E cur s2 of
           (Awaiting steps, s3) \<Rightarrow> (Stopped cur steps, s3)
         | (Returned success, s3) \<Rightarrow>
             (case after_sim E success cur s3 of
                (s4, counted) \<Rightarrow> (Completed counted, s4)))
      else
        (case try_step E cur s2 of
           (s3, counted) \<Rightarrow> (Completed counted, s3)))"
    unfolding loop_pass_def s1_def s2_def cur_def Let_def ..
  show ?thesis
  proof (cases "noImprovementCount s1 > 2000 \<and> near_best s1")
    case True
    then have "s' = rewindCurrentState s1" using assms(1) by (simp add: lp)
    then show ?thesis
      using weight_butlast [OF assms(2), of "\<lambda>r. rotationIndex (frames s r)"]
      by (simp add: stack_weight_def rewind_keep k1)
  next
    case stag: False
    show ?thesis
    proof (cases "rotationIndex (frames s2 cur) = - 1")
      case False
      then have "try_step E cur s2 = (s', False)"
        using assms(1) stag by (simp add: lp split: prod.splits)
      then have "stack_weight s' < stack_weight s2"
        using assms(2) by (intro try_step_weight [of E cur]) (simp_all add: k2 cur_def)
      then show ?thesis by (simp add: w2)
    next
      case True
      obtain res s3 where sim: "sim_run E 0 cur s2 = (res, s3)"
        by (cases "sim_run E 0 cur s2")
      have k3: "stateStack s3 = stateStack s"
        "\<forall>r. rotationIndex (frames s3 r) = rotationIndex (frames s2 r)"
        using sim_run_keep [OF sim] by (simp_all add: k2)
      have w3: "stack_weight s3 = stack_weight s2"
        by (simp add: stack_weight_def k3 k2)
      obtain success where res: "res = Returned success"
        using assms(1) stag True sim
        by (cases res) (simp_all add: lp simulateUntilNextNote_def)
      have "after_sim E success cur s3 = (s', False)"
        using assms(1) stag True sim res
        by (simp add: lp simulateUntilNextNote_def split: prod.splits)
      then have "stack_weight s' < stack_weight s3"
        using assms(2) True k3
        by (intro after_sim_weight [of E success cur]) (simp_all add: cur_def k2)
      then show ?thesis by (simp add: w3 w2)
    qed
  qed
qed

text \<open>
  A driver that waits at the await inside \<open>simulateUntilNextNote\<close>: its budget, its
  \<open>iterations\<close>, the frame it holds (\<open>currentState\<close>, which is also the \<open>state\<close> of
  the simulation) and the \<open>steps\<close> of the simulation.
\<close>

record driver =
  d_iterationsPerFrame :: nat
  d_iterations :: nat
  d_currentState :: nat
  d_steps :: nat

datatype outcome = Ended | Suspended driver

text \<open>
  The loop of \<open>generateWithBacktracking\<close> from its head, up to its end or to the point
  where the driver has to wait. \<open>passes\<close> counts the passes begun; the source has no
  such counter, it is there to state how many passes a call makes. The result is how
  the run ended, the scene, and \<open>passes\<close>.
\<close>

function gen_loop :: "env \<Rightarrow> nat \<Rightarrow> nat \<Rightarrow> scene \<Rightarrow> nat \<Rightarrow> outcome \<times> scene \<times> nat" where
  "gen_loop E iterationsPerFrame iterations s passes =
     (if iterations < iterationsPerFrame \<and> stateStack s \<noteq> [] then
        (case loop_pass E s of
           (Stopped currentState steps, s') \<Rightarrow>
             (Suspended \<lparr>d_iterationsPerFrame = iterationsPerFrame, d_iterations = iterations,
                         d_currentState = currentState, d_steps = steps\<rparr>,
              s', passes + 1)
         | (Completed counted, s') \<Rightarrow>
             gen_loop E iterationsPerFrame (if counted then iterations + 1 else iterations) s'
               (passes + 1))
      else (Ended, s, passes))"
  by pat_completeness auto
termination
proof (relation "measures [\<lambda>(E, iterationsPerFrame, iterations, s, passes).
                              iterationsPerFrame - iterations,
                            \<lambda>(E, iterationsPerFrame, iterations, s, passes). stack_weight s]")
  show "wf (measures [\<lambda>(E, iterationsPerFrame, iterations, s, passes).
                              iterationsPerFrame - iterations,
                            \<lambda>(E, iterationsPerFrame, iterations, s, passes). stack_weight s])"
    by simp
next
  fix E :: env and iterationsPerFrame iterations :: nat and s :: scene and passes :: nat
    and r :: pass_result and s' :: scene and counted :: bool
  assume a: "iterations < iterationsPerFrame \<and> stateStack s \<noteq> []"
    and b: "(r, s') = loop_pass E s" and d: "r = Completed counted"
  have lp: "loop_pass E s = (Completed counted, s')" using b d by simp
  show "((E, iterationsPerFrame, if counted then iterations + 1 else iterations, s',
         passes + 1), E, iterationsPerFrame, iterations, s, passes)
       \<in> measures [\<lambda>(E, iterationsPerFrame, iterations, s, passes).
                              iterationsPerFrame - iterations,
                            \<lambda>(E, iterationsPerFrame, iterations, s, passes). stack_weight s]"
  proof (cases counted)
    case True
    then show ?thesis using a by (simp; arith)
  next
    case False
    then have "stack_weight s' < stack_weight s"
      using loop_pass_weight [of E s s'] lp a by simp
    then show ?thesis using False by simp
  qed
qed

declare gen_loop.simps [simp del]

text \<open>
  What follows the loop: with an empty stack the generation is over.
\<close>

definition startRegularGameplay :: "env \<Rightarrow> scene \<Rightarrow> scene" where
  "startRegularGameplay E s =
     s\<lparr>isGenerating := False, currentNoteIndex := 0,
       startTime := performance_now E (clock_reads s),
       clock_reads := clock_reads s + 1\<rparr>"

definition after_loop :: "env \<Rightarrow> scene \<Rightarrow> scene" where
  "after_loop E s =
     (if stateStack s = [] then startRegularGameplay E (s\<lparr>isGenerating := False\<rparr>) else s)"

text \<open>
  A run of the driver from the head of its loop: to the end of the function, or to the
  point where it has to wait.
\<close>

definition run_driver :: "env \<Rightarrow> nat \<Rightarrow> nat \<Rightarrow> scene \<Rightarrow> nat \<Rightarrow> outcome \<times> scene \<times> nat" where
  "run_driver E iterationsPerFrame iterations s passes =
     (case gen_loop E iterationsPerFrame iterations s passes of
        (Ended, s', passes') \<Rightarrow> (Ended, after_loop E s', passes')
      | (Suspended d, s', passes') \<Rightarrow> (Suspended d, s', passes'))"

definition generateWithBacktracking :: "env \<Rightarrow> nat \<Rightarrow> scene \<Rightarrow> outcome \<times> scene \<times> nat" where
  "generateWithBacktracking E iterationsPerFrame s = run_driver E iterationsPerFrame 0 s 0"

text \<open>
  A waiting driver goes on when its timer fires: the simulation continues from its
  \<open>steps\<close>; when it returns, the pass that awaited it is completed and the loop goes
  on from its head. The pass count of the result is that of the passes begun since.
\<close>

definition resume_driver :: "env \<Rightarrow> driver \<Rightarrow> scene \<Rightarrow> outcome \<times> scene \<times> nat" where
  "resume_driver E d s =
     (case sim_run E (d_steps d) (d_currentState d) s of
        (Awaiting steps, s') \<Rightarrow> (Suspended (d\<lparr>d_steps := steps\<rparr>), s', 0)
      | (Returned success, s') \<Rightarrow>
          (case after_sim E success (d_currentState d) s' of
             (s'', counted) \<Rightarrow>
               run_driver E (d_iterationsPerFrame d)
                 (if counted then d_iterations d + 1 else d_iterations d) s'' 0))"

definition startGeneration :: "env \<Rightarrow> scene \<Rightarrow> scene" where
  "startGeneration E s =
     (case saveWorldState E (s\<lparr>isGenerating := True\<rparr>) of
        (snap, s') \<Rightarrow>
          s'\<lparr>frames := (frames s')(next_frame s' :=
               \<lparr>noteIndex = 0, rotationIndex = - 1, rotationPermutation = [],
                worldState = snap, simulationSteps = 0\<rparr>),
             stateStack := [next_frame s'],
             next_frame := next_frame s' + 1\<rparr>)"

subsection \<open>The host\<close>

text \<open>
  The host runs one task at a time: a frame, in which it calls \<open>update\<close>, or the timer
  of a waiting driver. \<open>update\<close> does not await the driver it starts
  (\<open>this.generateWithBacktracking(20)\<close> is a statement of its own), so a driver that
  has to wait is left pending and the next frame starts another one. The state of the
  program between two tasks is the scene and the drivers that wait.

  \<open>update\<close> is for a scene whose world and ball exist. With the new state it gives the
  number of passes of the search loop begun by the driver it started, up to the point
  where the host gets control back for another task.
\<close>

record program =
  p_scene :: scene
  p_waiting :: "driver list"

definition update :: "env \<Rightarrow> program \<Rightarrow> program \<times> nat" where
  "update E p =
     (if \<not> isGenerating (p_scene p)
      then (p\<lparr>p_scene := checkBallPlankCollisions E
                 ((p_scene p)\<lparr>g_world := world_step E (g_world (p_scene p))\<rparr>)\<rparr>, 0)
      else
        (case generateWithBacktracking E 20 (p_scene p) of
           (Ended, s', passes) \<Rightarrow> (p\<lparr>p_scene := s'\<rparr>, passes)
         | (Suspended d, s', passes) \<Rightarrow>
             (p\<lparr>p_scene := s', p_waiting := p_waiting p @ [d]\<rparr>, passes)))"

text \<open>
  The timer of the waiting driver number \<open>i\<close> fires.
\<close>

definition timer :: "env \<Rightarrow> nat \<Rightarrow> program \<Rightarrow> program" where
  "timer E i p =
     (if i < length (p_waiting p) then
        (case resume_driver E (p_waiting p ! i) (p_scene p) of
           (Ended, s', passes) \<Rightarrow>
             \<lparr>p_scene = s', p_waiting = take i (p_waiting p) @ drop (Suc i) (p_waiting p)\<rparr>
         | (Suspended d, s', passes) \<Rightarrow>
             \<lparr>p_scene = s', p_waiting = (p_waiting p)[i := d]\<rparr>)
      else p)"

datatype task = Frame | Timer nat

fun run_task :: "env \<Rightarrow> program \<Rightarrow> task \<Rightarrow> program" where
  "run_task E p Frame = fst (update E p)"
| "run_task E p (Timer i) = timer E i p"

definition run_tasks :: "env \<Rightarrow> program \<Rightarrow> task list \<Rightarrow> program" where
  "run_tasks E p tasks = foldl (run_task E) p tasks"

subsection \<open>Notions used to state the properties of the second scene\<close>

text \<open>
  A frame that the driver can try: it still needs its simulation, or it has a rotation
  index from 0 to 10 and a permutation of length 11 with entries below 11. Such a frame
  takes \<open>frame_passes\<close> passes of the loop when the ball always touches something and
  no candidate passes the history check.
\<close>

definition frame_ok :: "stack_state \<Rightarrow> bool" where
  "frame_ok f =
     (rotationIndex f = - 1
      \<or> (0 \<le> rotationIndex f \<and> rotationIndex f < 11
          \<and> length (rotationPermutation f) = 11
          \<and> list_all (\<lambda>i. i < 11) (rotationPermutation f)))"

definition frame_passes :: "stack_state \<Rightarrow> nat" where
  "frame_passes f = (if rotationIndex f = - 1 then 1 else nat (11 - rotationIndex f))"

definition passes_needed :: "scene \<Rightarrow> nat" where
  "passes_needed s = sum_list (map (\<lambda>r. frame_passes (frames s r)) (stateStack s))"

text \<open>
  The scene with \<open>k\<close> more steps of a forward simulation of the frame \<open>r\<close> in which
  the world does not move: the step counter of the frame and the number of clock reads
  have grown by \<open>k\<close>.
\<close>

definition more_steps :: "nat \<Rightarrow> nat \<Rightarrow> scene \<Rightarrow> scene" where
  "more_steps r k s =
     s\<lparr>frames := (frames s)(r := (frames s r)\<lparr>simulationSteps := simulationSteps (frames s r) + k\<rparr>),
       clock_reads := clock_reads s + k\<rparr>"

text \<open>
  A scene is calm for the frame \<open>r\<close> when the ball is within the bounds and a clock
  at 0 has not reached the time of the note of the frame.
\<close>

definition calm :: "nat \<Rightarrow> scene \<Rightarrow> bool" where
  "calm r s =
     (- 10 \<le> snd (rb_translation (g_ball (g_world s)))
      \<and> snd (rb_translation (g_ball (g_world s))) \<le> 10
      \<and> \<not> (noteIndex (frames s r) < length (s_notes s)
           \<and> 0 - startTime s \<ge> note_time (s_notes s ! noteIndex (frames s r))))"

text \<open>
  A scene is settled when no frame of its stack needs its simulation any more: the
  stack has no reference twice, every frame in it has a rotation index from 0 to 10
  and a snapshot with the ball within the bounds, and the ball is within the bounds.
  \<open>untouched s s'\<close>: going from \<open>s\<close> to \<open>s'\<close> the clock has not been read, the
  notes, the start time and \<open>isGenerating\<close> are the same, and no frame object has
  changed its note index, its step counter or its snapshot.
\<close>

definition settled :: "scene \<Rightarrow> bool" where
  "settled s =
     (distinct (stateStack s)
      \<and> (\<forall>r \<in> set (stateStack s).
            0 \<le> rotationIndex (frames s r) \<and> rotationIndex (frames s r) < 11
            \<and> - 10 \<le> snd (ballPosition (worldState (frames s r)))
            \<and> snd (ballPosition (worldState (frames s r))) \<le> 10)
      \<and> - 10 \<le> snd (rb_translation (g_ball (g_world s)))
      \<and> snd (rb_translation (g_ball (g_world s))) \<le> 10)"

definition untouched :: "scene \<Rightarrow> scene \<Rightarrow> bool" where
  "untouched s s' =
     (clock_reads s' = clock_reads s \<and> isGenerating s' = isGenerating s
      \<and> s_notes s' = s_notes s \<and> startTime s' = startTime s
      \<and> (\<forall>r. noteIndex (frames s' r) = noteIndex (frames s r)
             \<and> simulationSteps (frames s' r) = simulationSteps (frames s r)
             \<and> worldState (frames s' r) = worldState (frames s r)))"

text \<open>
  Concrete environments and scenes for the closed theorems. \<open>quiet_env\<close>: nothing
  moves, nothing touches, the clock stays at 0 and no candidate passes the history
  check. \<open>contact_env\<close>: the ball touches something after every step.
  \<open>blocked_env\<close>: the same, with the clock at 3000. \<open>idle_scene\<close> is the scene as
  \<open>create\<close> leaves it, with two notes and no frame made yet (what lies behind the
  references is immaterial); \<open>busy_scene\<close> is a scene in the middle of a generation,
  two planks deep (three frames), whose top frame still needs its simulation.
\<close>

definition quiet_env :: env where
  "quiet_env = \<lparr>world_step = (\<lambda>w. w), contactPairsWith = (\<lambda>w. []),
     performance_now = (\<lambda>k. 0), Math_random = (\<lambda>k. 0),
     checkHistoricalCollisions = (\<lambda>s a b. False), checkBallPlankCollisions = (\<lambda>s. s)\<rparr>"

definition contact_env :: env where
  "contact_env = quiet_env\<lparr>contactPairsWith := (\<lambda>w. [0])\<rparr>"

definition blocked_env :: env where
  "blocked_env = quiet_env\<lparr>contactPairsWith := (\<lambda>w. [0]),
     performance_now := (\<lambda>k. 3000)\<rparr>"

definition no_frame :: stack_state where
  "no_frame = \<lparr>noteIndex = 0, rotationIndex = - 1, rotationPermutation = [],
     worldState = \<lparr>ballPosition = (0, 0), ballVelocity = (0, 0), snap_planks = [],
                   snap_time = 0\<rparr>,
     simulationSteps = 0\<rparr>"

definition idle_scene :: scene where
  "idle_scene =
     \<lparr>g_world = \<lparr>g_ball = \<lparr>rb_handle = 0, rb_translation = (0, - 4), rb_linvel = (2, 10),
                    rb_rotation = 0\<rparr>, g_bodies = [], g_next = 1\<rparr>,
      g_planks = [], s_notes = [\<lparr>note_time = 2000\<rparr>, \<lparr>note_time = 2500\<rparr>],
      currentNoteIndex = 0, startTime = 0, stateStack = [], frames = (\<lambda>r. no_frame),
      next_frame = 0, maxPlanksGenerated = 0,
      noImprovementCount = 0, isGenerating = False, clock_reads = 0, random_reads = 0\<rparr>"

definition plank_one :: g_plank where
  "plank_one = \<lparr>gp_body = \<lparr>pb_handle = 1, pb_translation = Some (0, - 3),
       pb_rotation = Some 0\<rparr>, gp_note = Some \<lparr>note_time = 2000\<rparr>, gp_angle = Some 0\<rparr>"

definition plank_two :: g_plank where
  "plank_two = \<lparr>gp_body = \<lparr>pb_handle = 2, pb_translation = Some (1, - 1),
       pb_rotation = Some 0\<rparr>, gp_note = Some \<lparr>note_time = 2500\<rparr>, gp_angle = Some 0\<rparr>"

definition busy_scene :: scene where
  "busy_scene =
     \<lparr>g_world = \<lparr>g_ball = \<lparr>rb_handle = 0, rb_translation = (1, - 2), rb_linvel = (2, - 9),
                    rb_rotation = 0\<rparr>,
                 g_bodies = [\<lparr>gb_body = gp_body plank_one,
                              gb_shape = CuboidShape PLANK_HALF_LENGTH PLANK_WIDTH,
                              gb_restitution = 0.9\<rparr>,
                             \<lparr>gb_body = gp_body plank_two,
                              gb_shape = CuboidShape PLANK_HALF_LENGTH PLANK_WIDTH,
                              gb_restitution = 0.9\<rparr>],
                 g_next = 3\<rparr>,
      g_planks = [plank_one, plank_two],
      s_notes = [\<lparr>note_time = 2000\<rparr>, \<lparr>note_time = 2500\<rparr>],
      currentNoteIndex = 0, startTime = 0,
      stateStack = [0, 1, 2],
      frames = (\<lambda>r. no_frame)
        (0 := \<lparr>noteIndex = 0, rotationIndex = 0,
               rotationPermutation = [0, 1, 2, 3, 4, 5, 6, 7, 8, 9, 10],
               worldState = \<lparr>ballPosition = (0, - 4), ballVelocity = (2, 10), snap_planks = [],
                             snap_time = 0\<rparr>,
               simulationSteps = 120\<rparr>,
         1 := \<lparr>noteIndex = 1, rotationIndex = 0,
               rotationPermutation = [0, 1, 2, 3, 4, 5, 6, 7, 8, 9, 10],
               worldState = \<lparr>ballPosition = (0, - 3.5), ballVelocity = (2, 11),
                             snap_planks = [\<lparr>sp_position = Some (0, - 3), sp_angle = Some 0,
                                              sp_body = gp_body plank_one\<rparr>],
                             snap_time = 2000\<rparr>,
               simulationSteps = 30\<rparr>,
         2 := \<lparr>noteIndex = 1, rotationIndex = - 1, rotationPermutation = [],
               worldState = \<lparr>ballPosition = (1, - 2), ballVelocity = (2, - 9),
                             snap_planks = [\<lparr>sp_position = Some (0, - 3), sp_angle = Some 0,
                                              sp_body = gp_body plank_one\<rparr>,
                                             \<lparr>sp_position = Some (1, - 1), sp_angle = Some 0,
                                              sp_body = gp_body plank_two\<rparr>],
                             snap_time = 2500\<rparr>,
               simulationSteps = 0\<rparr>),
      next_frame = 3,
      maxPlanksGenerated = 1, noImprovementCount = 0, isGenerating = True,
      clock_reads = 152, random_reads = 20\<rparr>"

text \<open>
  The program when the generation has just been started in the idle scene, and the
  tasks of the host that follow in the run considered below: a frame, five timers of
  the driver it started, the next frame, and then fourteen times the timers of the two
  drivers that wait.
\<close>

definition fresh_program :: program where
  "fresh_program = \<lparr>p_scene = startGeneration quiet_env idle_scene, p_waiting = []\<rparr>"

definition two_frames :: "task list" where
  "two_frames = Frame # replicate 5 (Timer 0) @ Frame # concat (replicate 14 [Timer 0, Timer 1])"

text \<open>
  The same tasks followed by the timers that are left: the last timer of the first
  driver, and then, of the second driver, five timers and its last one.
\<close>

definition to_the_end :: "task list" where
  "to_the_end = two_frames @ Timer 0 # replicate 5 (Timer 0) @ [Timer 0]"

section \<open>History bound\<close>

lemma save_mementos:
  "mementos (save st t c) =
     (if length (mementos c) \<ge> 1000 then tl (mementos c @ [saveState st (originator c) t])
      else mementos c @ [saveState st (originator c) t])"
  by (simp add: save_def Let_def)

lemma run_saves_mementos:
  "length (mementos c) \<le> 1000 \<Longrightarrow>
     mementos (run_saves c ops) =
       drop (length (mementos c) + length ops - 1000)
         (mementos c @ map (\<lambda>(st, orig, t). saveState st orig t) ops)"
proof (induction ops arbitrary: c)
  case Nil
  then show ?case by simp
next
  case (Cons op ops)
  obtain st orig t where op: "op = (st, orig, t)" by (cases op)
  let ?c = "save st t (c\<lparr>originator := orig\<rparr>)"
  let ?m = "saveState st orig t"
  let ?rest = "map (\<lambda>(st, orig, t). saveState st orig t) ops"
  show ?case
  proof (cases "length (mementos c) = 1000")
    case True
    then have ms: "mementos ?c = drop 1 (mementos c @ [?m])"
      by (cases "mementos c") (simp_all add: save_mementos)
    then have len: "length (mementos ?c) = 1000" using True by simp
    have "mementos (run_saves ?c ops) = drop (length ops) (mementos ?c @ ?rest)"
      using Cons.IH [of ?c] len by simp
    also have "mementos ?c @ ?rest = drop 1 (mementos c @ ?m # ?rest)"
      using ms True by simp
    finally show ?thesis using True by (simp add: op)
  next
    case False
    with Cons.prems have lt: "length (mementos c) < 1000" by simp
    then have ms: "mementos ?c = mementos c @ [?m]"
      by (simp add: save_mementos)
    then have "mementos (run_saves ?c ops) =
        drop (Suc (length (mementos c)) + length ops - 1000) ((mementos c @ [?m]) @ ?rest)"
      using Cons.IH [of ?c] lt by simp
    then show ?thesis by (simp add: op)
  qed
qed

text \<open>
  C6. Started from a history within the cap of 1000, any sequence of saves leaves at most
  1000 mementos, and they are the newest ones in the order they were pushed: the
  history is the old one followed by the new snapshots, with the oldest entries dropped
  from the front. A single save on a full history drops exactly the oldest memento.
\<close>

theorem history_bound_fifo:
  assumes "length (mementos c) \<le> 1000"
  shows "length (mementos (run_saves c ops)) \<le> 1000
       \<and> mementos (run_saves c ops) =
           drop (length (mementos c) + length ops - 1000)
             (mementos c @ map (\<lambda>(st, orig, t). saveState st orig t) ops)
       \<and> (length (mementos c) = 1000 \<longrightarrow>
            mementos (save st t c) = tl (mementos c) @ [saveState st (originator c) t])"
proof -
  have eq: "mementos (run_saves c ops) =
      drop (length (mementos c) + length ops - 1000)
        (mementos c @ map (\<lambda>(st, orig, t). saveState st orig t) ops)"
    using assms by (rule run_saves_mementos)
  have "length (mementos (run_saves c ops)) \<le> 1000"
    using assms by (simp add: eq)
  moreover have "length (mementos c) = 1000 \<Longrightarrow>
      mementos (save st t c) = tl (mementos c) @ [saveState st (originator c) t]"
    by (cases "mementos c") (simp_all add: save_mementos)
  ultimately show ?thesis using eq by blast
qed

theorem history_bound_fifo_witness:
  "length (mementos \<lparr>mementos = replicate 1000 (Memento ball_at_start [] 0),
      originator = scene_originator\<rparr>) \<le> 1000
   \<and> length (mementos (run_saves \<lparr>mementos = replicate 1000 (Memento ball_at_start [] 0),
        originator = scene_originator\<rparr>
      [(no_planks, scene_originator\<lparr>o_ball := ball_later\<rparr>, 16)])) \<le> 1000
   \<and> mementos (save no_planks 16 \<lparr>mementos = replicate 1000 (Memento ball_at_start [] 0),
        originator = scene_originator\<lparr>o_ball := ball_later\<rparr>\<rparr>)
     = replicate 999 (Memento ball_at_start [] 0) @ [Memento ball_later [] 16]"
proof -
  let ?ms = "replicate 1000 (Memento ball_at_start [] 0)"
  let ?c0 = "\<lparr>mementos = ?ms, originator = scene_originator\<rparr>"
  let ?o1 = "scene_originator\<lparr>o_ball := ball_later\<rparr>"
  let ?c1 = "\<lparr>mementos = ?ms, originator = ?o1\<rparr>"
  have tl: "tl ?ms = replicate 999 (Memento ball_at_start [] 0)"
    by (simp add: tl_replicate)
  have "length (mementos ?c0) \<le> 1000" by simp
  moreover have "length (mementos (run_saves ?c0 [(no_planks, ?o1, 16)])) \<le> 1000"
    using history_bound_fifo [of ?c0 "[(no_planks, ?o1, 16)]" no_planks 16] by simp
  moreover have "mementos (save no_planks 16 ?c1) = tl ?ms @ [Memento ball_later [] 16]"
    using history_bound_fifo [of ?c1 "[]" no_planks 16]
    by (simp add: saveState_def no_planks_def scene_originator_def)
  ultimately show ?thesis unfolding tl by blast
qed

section \<open>Undo on a history with nothing to restore\<close>

lemma undo_loop_all_skipped:
  "\<forall>m \<in> set ms. \<exists>pss. plankStates m = Some pss \<and> length pss = length currentPlanks
     \<Longrightarrow> undo_loop ms currentPlanks = Inr (None, [])"
proof (induction ms rule: rev_induct)
  case Nil
  then show ?case by simp
next
  case (snoc m ms)
  then obtain pss where "plankStates m = Some pss" "length pss = length currentPlanks"
    by auto
  moreover have "undo_loop ms currentPlanks = Inr (None, [])"
    using snoc by simp
  ultimately show ?case
    by (subst undo_loop.simps) simp
qed

text \<open>
  C9. When the history is empty, or every stored memento has as many plank states as
  there are current planks, \<open>undo\<close> returns the sentinel \<open>{time: 0, handle: -1}\<close>; the
  originator (the ball, its planks, \<open>planksToRemove\<close>) and every plank array, the
  current plank list among them, are unchanged. The history itself is left empty.
\<close>

theorem undo_nothing_to_restore:
  assumes "\<forall>m \<in> set (mementos c).
             \<exists>pss. plankStates m = Some pss \<and> length pss = length (st currentPlanks)"
  shows "undo st c currentPlanks =
           Inr (st, c\<lparr>mementos := []\<rparr>,
                \<lparr>res_time = 0, res_angle = None, res_handle = Some (- 1)\<rparr>)
         \<and> originator (c\<lparr>mementos := []\<rparr>) = originator c"
proof (cases "mementos c = []")
  case True
  then have "c\<lparr>mementos := []\<rparr> = c" by simp
  then show ?thesis using True by (simp add: undo_def sentinel_def)
next
  case False
  then show ?thesis
    using undo_loop_all_skipped [OF assms] by (simp add: undo_def sentinel_def)
qed

theorem undo_nothing_to_restore_witness:
  "undo ((\<lambda>r. [])(0 := [sprite_two]))
     \<lparr>mementos = [Memento ball_at_start [sprite_one] 16],
       originator = scene_originator\<lparr>o_ball := ball_later\<rparr>\<rparr> 0
   = Inr ((\<lambda>r. [])(0 := [sprite_two]),
          \<lparr>mementos = [], originator = scene_originator\<lparr>o_ball := ball_later\<rparr>\<rparr>,
          \<lparr>res_time = 0, res_angle = None, res_handle = Some (- 1)\<rparr>)"
  using undo_nothing_to_restore
    [of "\<lparr>mementos = [Memento ball_at_start [sprite_one] 16],
          originator = scene_originator\<lparr>o_ball := ball_later\<rparr>\<rparr>"
        "(\<lambda>r. [])(0 := [sprite_two])" 0]
  by (simp add: Memento_def)

section \<open>Restoring a snapshot\<close>

text \<open>
  C2, as the code has it. The scene passes as \<open>currentPlanks\<close> the very array the
  originator holds. Restoring the snapshot just taken of a state writes back the ball's
  own position and velocity, so the ball is as it was. The planks are not reconciled
  against the snapshot: the live list is as long as the captured one, so \<open>restoreState\<close>
  takes the \<open>>=\<close> branch. With no plank the list stays empty and nothing is queued.
  With at least one plank, exactly the last one is popped, from the list of the
  originator since it is that list, and its \<open>handle\<close> property is queued in
  \<open>planksToRemove\<close>; every other plank stays in the list, untouched and never
  recreated, no other array changes, and \<open>{time, angle}\<close> is returned with the time of
  the snapshot and the \<open>rotations\<close> of the popped plank.
\<close>

theorem restore_of_capture:
  "o_ball (fst (snd (restoreState st orig (Some (saveState st orig t)) (o_planks orig))))
     = o_ball orig
   \<and> o_planks (fst (snd (restoreState st orig (Some (saveState st orig t)) (o_planks orig))))
     = o_planks orig
   \<and> (\<forall>r. r \<noteq> o_planks orig \<longrightarrow>
        fst (restoreState st orig (Some (saveState st orig t)) (o_planks orig)) r = st r)
   \<and> (st (o_planks orig) = [] \<longrightarrow>
        fst (restoreState st orig (Some (saveState st orig t)) (o_planks orig)) = st
      \<and> fst (snd (restoreState st orig (Some (saveState st orig t)) (o_planks orig))) = orig)
   \<and> (st (o_planks orig) \<noteq> [] \<longrightarrow>
        fst (restoreState st orig (Some (saveState st orig t)) (o_planks orig)) (o_planks orig)
          = butlast (st (o_planks orig))
      \<and> planksToRemove
          (fst (snd (restoreState st orig (Some (saveState st orig t)) (o_planks orig))))
          = planksToRemove orig @ [plank_handle (last (st (o_planks orig)))]
      \<and> snd (snd (restoreState st orig (Some (saveState st orig t)) (o_planks orig)))
          = \<lparr>res_time = t, res_angle = plank_rotations (last (st (o_planks orig))),
             res_handle = None\<rparr>)"
  by (simp add: restoreState_def restoreState_try_def saveState_def Memento_def Let_def)

theorem restore_of_capture_witness:
  "fst (restoreState ((\<lambda>r. [])(0 := [sprite_one, sprite_two])) scene_originator
      (Some (saveState ((\<lambda>r. [])(0 := [sprite_one, sprite_two])) scene_originator 16)) 0) 0
     = [sprite_one]
   \<and> fst (snd (restoreState ((\<lambda>r. [])(0 := [sprite_one, sprite_two])) scene_originator
      (Some (saveState ((\<lambda>r. [])(0 := [sprite_one, sprite_two])) scene_originator 16)) 0))
     = scene_originator\<lparr>planksToRemove := [None]\<rparr>
   \<and> snd (snd (restoreState ((\<lambda>r. [])(0 := [sprite_one, sprite_two])) scene_originator
      (Some (saveState ((\<lambda>r. [])(0 := [sprite_one, sprite_two])) scene_originator 16)) 0))
     = \<lparr>res_time = 16, res_angle = Some [0.3], res_handle = None\<rparr>
   \<and> fst (restoreState no_planks scene_originator
      (Some (saveState no_planks scene_originator 16)) 0) = no_planks"
proof -
  have o: "o_planks scene_originator = 0" "planksToRemove scene_originator = []"
    by (simp_all add: scene_originator_def)
  have eq: "fst (snd (restoreState ((\<lambda>r. [])(0 := [sprite_one, sprite_two])) scene_originator
      (Some (saveState ((\<lambda>r. [])(0 := [sprite_one, sprite_two])) scene_originator 16)) 0))
     = scene_originator\<lparr>planksToRemove := [None]\<rparr>"
    by (simp add: restoreState_def restoreState_try_def saveState_def Memento_def Let_def
        scene_originator_def sprite_two_def ball_at_start_def)
  show ?thesis
    using restore_of_capture [of "(\<lambda>r. [])(0 := [sprite_one, sprite_two])" scene_originator 16]
      restore_of_capture [of no_planks scene_originator 16] eq
    by (simp add: o sprite_two_def no_planks_def)
qed

text \<open>
  The claim as the specification states it fails on a state with one plank: after
  capture and restore the list, which is the originator's, is empty, so the obstacle
  with body handle 1 is gone from it.
\<close>

theorem restore_of_capture_counterexample:
  "map (\<lambda>p. rb_handle (body p)) (one_plank (o_planks scene_originator)) = [1]
   \<and> map (\<lambda>p. rb_handle (body p))
       (fst (restoreState one_plank scene_originator
          (Some (saveState one_plank scene_originator 16)) (o_planks scene_originator))
        (o_planks scene_originator)) = []"
  by (simp add: restoreState_def restoreState_try_def saveState_def Memento_def Let_def
      one_plank_def scene_originator_def sprite_one_def)

section \<open>Restoring a malformed snapshot\<close>

text \<open>
  C7, as the code has it. \<open>restoreState\<close> never raises: whatever ends the \<open>try\<close> block
  is caught and the sentinel \<open>{time: 0, handle: -1}\<close> is returned. When the memento or
  its ball state is missing, the error comes before any write and the originator, its
  ball included, is unchanged. When the ball state is there and the plank states are
  missing, the ball has already been given the snapshot's position and velocity when
  the error is caught, and it keeps them. In both cases no plank array changes.
\<close>

theorem restore_malformed:
  "(memento = None \<or> (\<exists>m. memento = Some m \<and> ballState m = None)
      \<longrightarrow> restoreState st orig memento currentPlanks = (st, orig, sentinel))
   \<and> (\<forall>m bs. memento = Some m \<and> ballState m = Some bs \<and> plankStates m = None
      \<longrightarrow> restoreState st orig memento currentPlanks =
            (st,
             orig\<lparr>o_ball := (o_ball orig)\<lparr>rb_translation := (bs_x bs, bs_y bs),
                                           rb_linvel := (velocityX bs, velocityY bs)\<rparr>\<rparr>,
             sentinel))
   \<and> res_time sentinel = 0 \<and> res_handle sentinel = Some (- 1)"
  by (auto simp add: restoreState_def restoreState_try_def Let_def sentinel_def)

theorem restore_malformed_witness:
  "restoreState no_planks scene_originator
     (Some \<lparr>ballState = None, plankStates = Some [], m_time = 16\<rparr>) 0
   = (no_planks, scene_originator, sentinel)
   \<and> restoreState no_planks scene_originator
     (Some \<lparr>ballState = Some \<lparr>bs_x = 5, bs_y = 6, velocityX = 7, velocityY = 8\<rparr>,
            plankStates = None, m_time = 16\<rparr>) 0
   = (no_planks,
      scene_originator\<lparr>o_ball := \<lparr>rb_handle = 0, rb_translation = (5, 6), rb_linvel = (7, 8),
          rb_rotation = 0\<rparr>\<rparr>, sentinel)"
  using restore_malformed
    [of "Some \<lparr>ballState = None, plankStates = Some [], m_time = 16\<rparr>"
        no_planks scene_originator 0]
    restore_malformed
    [of "Some \<lparr>ballState = Some \<lparr>bs_x = 5, bs_y = 6, velocityX = 7, velocityY = 8\<rparr>,
            plankStates = None, m_time = 16\<rparr>"
        no_planks scene_originator 0]
  by (simp add: scene_originator_def ball_at_start_def)

text \<open>
  The claim as the specification states it (the failed restore leaves the ball's
  position unchanged) fails on a memento whose ball state is present and whose plank
  states are missing: the sentinel is returned and the ball has moved from (0, -4) to
  (5, 6).
\<close>

theorem restore_malformed_counterexample:
  "snd (snd (restoreState no_planks scene_originator
     (Some \<lparr>ballState = Some \<lparr>bs_x = 5, bs_y = 6, velocityX = 7, velocityY = 8\<rparr>,
            plankStates = None, m_time = 16\<rparr>) 0)) = sentinel
   \<and> rb_translation (o_ball (fst (snd (restoreState no_planks scene_originator
     (Some \<lparr>ballState = Some \<lparr>bs_x = 5, bs_y = 6, velocityX = 7, velocityY = 8\<rparr>,
            plankStates = None, m_time = 16\<rparr>) 0)))) = (5, 6)
   \<and> rb_translation (o_ball scene_originator) = (0, - 4)"
  by (simp add: restoreState_def restoreState_try_def Let_def scene_originator_def
      ball_at_start_def)

section \<open>The validity check arms a candidate that overlaps the ball\<close>

lemma update_new_collider:
  assumes "world_ok w" "co_handle c = length (colliders w)"
  shows "update_collider (w\<lparr>bodies := bs, colliders := colliders w @ [c]\<rparr>)
           (length (colliders w)) f
           = w\<lparr>bodies := bs, colliders := colliders w @ [f c]\<rparr>"
proof -
  have "map (\<lambda>x. if co_handle x = length (colliders w) then f x else x) (colliders w)
          = colliders w"
    using assms(1) by (intro map_idI) (auto simp add: world_ok_def)
  then show ?thesis using assms(2) by (simp add: update_collider_def)
qed

lemma inert_candidate_eq:
  "inert_candidate w plankCenter angle =
     w\<lparr>bodies := bodies w @ [(Fixed, \<lparr>rb_handle = length (bodies w),
            rb_translation = plankCenter, rb_linvel = (0, 0), rb_rotation = angle\<rparr>)],
       colliders := colliders w @
         [\<lparr>co_handle = length (colliders w), co_parent = length (bodies w),
           co_shape = CuboidShape 0.6 0.15, co_sensor = True, co_enabled = True,
           co_activeCollisionTypes = FIXED_FIXED, co_restitution = 0\<rparr>]\<rparr>"
  by (simp add: inert_candidate_def createRigidBody_def createCollider_def Let_def)

lemma wouldOverlapWithHistory_eq:
  assumes "world_ok w"
  shows "wouldOverlapWithHistory isect w plankA plankB plankCenter angle =
     (if \<exists>otherCollider \<in> set (isect (inert_candidate w plankCenter angle) (length (colliders w))).
            shape_type_of (co_shape otherCollider) = Ball
      then
        (w\<lparr>bodies := bodies w @ [(Fixed, \<lparr>rb_handle = length (bodies w),
            rb_translation = plankCenter, rb_linvel = (0, 0), rb_rotation = angle\<rparr>)],
           colliders := colliders w @
             [\<lparr>co_handle = length (colliders w), co_parent = length (bodies w),
               co_shape = CuboidShape 0.6 0.15, co_sensor = True, co_enabled = False,
               co_activeCollisionTypes = FIXED_FIXED, co_restitution = 0\<rparr>]\<rparr>, None)
      else
        (w\<lparr>bodies := bodies w @ [(Fixed, \<lparr>rb_handle = length (bodies w),
            rb_translation = plankCenter, rb_linvel = (0, 0), rb_rotation = angle\<rparr>)],
           colliders := colliders w @
             [\<lparr>co_handle = length (colliders w), co_parent = length (bodies w),
               co_shape = CuboidShape 0.6 0.15, co_sensor = False, co_enabled = True,
               co_activeCollisionTypes = DYNAMIC_FIXED, co_restitution = 1.1\<rparr>]\<rparr>,
         Some \<lparr>rb_handle = length (bodies w),
            rb_translation = plankCenter, rb_linvel = (0, 0), rb_rotation = angle\<rparr>))"
  using update_new_collider [OF assms]
  by (simp add: wouldOverlapWithHistory_def inert_candidate_eq createRigidBody_def
      createCollider_def Let_def)

lemma example_world_ok: "world_ok example_world"
  by (simp add: world_ok_def example_world_def ball_collider_def trail_collider_def)

lemma normalize_unit: "Vector2_normalize (1, 0) = (1, 0)"
  by (simp add: Vector2_normalize_def)

lemma DegToRad_90: "DegToRad 90 = pi / 2"
  by (simp add: DegToRad_def)

text \<open>
  In a world the scene has built, the pairs of the last step do not have the collider
  of the candidate, which did not exist then: the callback runs for no collider, and
  the candidate is armed and returned, wherever it is.
\<close>

lemma no_pairs_for_candidate:
  assumes "world_ok w"
  shows "world_intersectionPairsWith (inert_candidate w plankCenter angle) (length (colliders w)) = []"
proof -
  have "\<And>a b. (a, b) \<in> set (narrow_phase w)
          \<Longrightarrow> a \<noteq> length (colliders w) \<and> b \<noteq> length (colliders w)"
    using assms by (fastforce simp add: world_ok_def)
  then show ?thesis
    by (auto simp add: world_intersectionPairsWith_def inert_candidate_eq filter_empty_conv)
qed

lemma candidate_armed:
  assumes "world_ok w"
  shows "wouldOverlapWithHistory world_intersectionPairsWith w plankA plankB plankCenter angle =
     (w\<lparr>bodies := bodies w @ [(Fixed, \<lparr>rb_handle = length (bodies w),
            rb_translation = plankCenter, rb_linvel = (0, 0), rb_rotation = angle\<rparr>)],
        colliders := colliders w @
          [\<lparr>co_handle = length (colliders w), co_parent = length (bodies w),
            co_shape = CuboidShape 0.6 0.15, co_sensor = False, co_enabled = True,
            co_activeCollisionTypes = DYNAMIC_FIXED, co_restitution = 1.1\<rparr>]\<rparr>,
      Some \<lparr>rb_handle = length (bodies w),
         rb_translation = plankCenter, rb_linvel = (0, 0), rb_rotation = angle\<rparr>)"
  by (simp add: wouldOverlapWithHistory_eq [OF assms] no_pairs_for_candidate [OF assms])

text \<open>
  C1 fails on the code. The ball is at (0, -4) and moves along (1, 0); the first
  angle of the shuffled order is 0. \<open>placePlankForNote\<close> computes the centre
  (0.601, -4) and passes it with the rotation 0: the cuboid, of half extents 0.6 and
  0.15, reaches from x = 0.001 to x = 1.201 at the height of the ball, so it overlaps
  the ball, whose radius is 0.3 (its point (0.001, -4) is at distance 0.001 from the
  centre of the ball). The check creates the sensor and asks the engine at once, with
  no step of the world in between, so the engine has no pair for the new collider and
  the callback never runs: \<open>intersectBall\<close> stays false, the collider is armed
  (sensor off, \<open>DYNAMIC_FIXED\<close>, restitution 1.1) and the body is returned and
  committed as the new plank.
\<close>

theorem candidate_on_ball_armed:
  "plank_pose (0, - 4) (Vector2_normalize (1, 0)) 0
     = ((1, 0), (0.601, - 4), (0.601, - 3.4), (0.601, - 4.6))
   \<and> world_intersectionPairsWith (inert_candidate example_world (0.601, - 4) 0) 2 = []
   \<and> wouldOverlapWithHistory world_intersectionPairsWith example_world
        (0.601, - 3.4) (0.601, - 4.6) (0.601, - 4) 0
       = (example_world\<lparr>bodies := bodies example_world @
             [(Fixed, \<lparr>rb_handle = 2, rb_translation = (0.601, - 4), rb_linvel = (0, 0),
                 rb_rotation = 0\<rparr>)],
            colliders := colliders example_world @
             [\<lparr>co_handle = 2, co_parent = 2, co_shape = CuboidShape 0.6 0.15,
               co_sensor = False, co_enabled = True,
               co_activeCollisionTypes = DYNAMIC_FIXED, co_restitution = 1.1\<rparr>]\<rparr>,
          Some \<lparr>rb_handle = 2, rb_translation = (0.601, - 4), rb_linvel = (0, 0),
             rb_rotation = 0\<rparr>)
   \<and> snd (snd (placePlankForNote_loop world_intersectionPairsWith
        [0, 0.15, - 0.15, 0.6, - 0.6, 0.3, - 0.3, 0.9, - 0.9, 1.1, - 1.1]
        (0, - 4) (1, 0) [] example_world []))
       = Some \<lparr>rb_handle = 2, rb_translation = (0.601, - 4), rb_linvel = (0, 0),
            rb_rotation = 0\<rparr>
   \<and> bodies example_world ! 0
       = (Dynamic, \<lparr>rb_handle = 0, rb_translation = (0, - 4), rb_linvel = (1, 0),
            rb_rotation = 0\<rparr>)
   \<and> colliders example_world ! 0 = ball_collider
   \<and> co_shape ball_collider = BallShape 0.3
   \<and> cuboid_point (0.601, - 4) 0 (- 0.6, 0) = (0.001, - 4)
   \<and> Vector2_lengthSq (Vector2_subtract (cuboid_point (0.601, - 4) 0 (- 0.6, 0)) (0, - 4))
       < 0.3 * 0.3"
proof -
  have len: "length (colliders example_world) = 2" "length (bodies example_world) = 2"
    by (simp_all add: example_world_def)
  have pose: "plank_pose (0, - 4) (Vector2_normalize (1, 0)) 0
     = ((1, 0), (0.601, - 4), (0.601, - 3.4), (0.601, - 4.6))"
    by (simp add: plank_pose_def Let_def normalize_unit DegToRad_90 Vector2_rotate_def
        Vector2_add_def Vector2_subtract_def Vector2_multiply_def)
  have pairs: "world_intersectionPairsWith (inert_candidate example_world (0.601, - 4) 0) 2 = []"
    using no_pairs_for_candidate [OF example_world_ok, of "(0.601, - 4)" 0] by (simp add: len)
  have armed: "wouldOverlapWithHistory world_intersectionPairsWith example_world
        (0.601, - 3.4) (0.601, - 4.6) (0.601, - 4) 0
       = (example_world\<lparr>bodies := bodies example_world @
             [(Fixed, \<lparr>rb_handle = 2, rb_translation = (0.601, - 4), rb_linvel = (0, 0),
                 rb_rotation = 0\<rparr>)],
            colliders := colliders example_world @
             [\<lparr>co_handle = 2, co_parent = 2, co_shape = CuboidShape 0.6 0.15,
               co_sensor = False, co_enabled = True,
               co_activeCollisionTypes = DYNAMIC_FIXED, co_restitution = 1.1\<rparr>]\<rparr>,
          Some \<lparr>rb_handle = 2, rb_translation = (0.601, - 4), rb_linvel = (0, 0),
             rb_rotation = 0\<rparr>)"
    unfolding candidate_armed [OF example_world_ok] len ..
  have placed: "snd (snd (placePlankForNote_loop world_intersectionPairsWith
        [0, 0.15, - 0.15, 0.6, - 0.6, 0.3, - 0.3, 0.9, - 0.9, 1.1, - 1.1]
        (0, - 4) (1, 0) [] example_world []))
       = Some \<lparr>rb_handle = 2, rb_translation = (0.601, - 4), rb_linvel = (0, 0),
            rb_rotation = 0\<rparr>"
    unfolding placePlankForNote_loop_def
    apply (subst place_loop.simps)
    apply (simp only: pose armed prod.case option.case set_simps empty_iff if_False)
    apply simp
    done
  have pt: "cuboid_point (0.601, - 4) 0 (- 0.6, 0) = (0.001, - 4)"
    by (simp add: cuboid_point_def Vector2_add_def Vector2_rotate_def)
  have near: "Vector2_lengthSq (Vector2_subtract (cuboid_point (0.601, - 4) 0 (- 0.6, 0))
      (0, - 4)) < 0.3 * 0.3"
    unfolding pt by (simp add: Vector2_lengthSq_def Vector2_subtract_def)
  have rest: "bodies example_world ! 0
       = (Dynamic, \<lparr>rb_handle = 0, rb_translation = (0, - 4), rb_linvel = (1, 0),
            rb_rotation = 0\<rparr>)"
    "colliders example_world ! 0 = ball_collider" "co_shape ball_collider = BallShape 0.3"
    by (simp_all add: example_world_def ball_collider_def)
  show ?thesis using pose pairs armed placed pt near rest by blast
qed

section \<open>The distance from a point to a segment\<close>

lemma dist_sq_param:
  "(fst (segment_point A B t) - fst P) * (fst (segment_point A B t) - fst P)
   + (snd (segment_point A B t) - snd P) * (snd (segment_point A B t) - snd P)
   = Vector2_lengthSq (Vector2_subtract P A)
     - 2 * t * Vector2_dot (Vector2_subtract P A) (Vector2_subtract B A)
     + t * t * Vector2_lengthSq (Vector2_subtract B A)"
  by (simp add: segment_point_def Vector2_lengthSq_def Vector2_subtract_def Vector2_dot_def
      algebra_simps)

lemma distance_param:
  "Vector2_distance P (segment_point A B t) =
     sqrt (Vector2_lengthSq (Vector2_subtract P A)
     - 2 * t * Vector2_dot (Vector2_subtract P A) (Vector2_subtract B A)
     + t * t * Vector2_lengthSq (Vector2_subtract B A))"
  unfolding Vector2_distance_def Let_def dist_sq_param ..

lemma segment_point_0: "segment_point A B 0 = A"
  by (simp add: segment_point_def)

lemma segment_point_1: "segment_point A B 1 = B"
  by (simp add: segment_point_def)

lemma quad_before:
  fixes a b c t :: real
  assumes "b \<le> 0" "0 \<le> a" "0 \<le> t"
  shows "c \<le> c - 2 * t * b + t * t * a"
proof -
  have "0 \<le> t * t * a" using assms by simp
  moreover have "t * b \<le> 0" using assms by (simp add: mult_nonneg_nonpos)
  ultimately show ?thesis by simp
qed

lemma quad_after:
  fixes a b c t :: real
  assumes "a \<le> b" "0 \<le> a" "0 \<le> t" "t \<le> 1"
  shows "c - 2 * 1 * b + 1 * 1 * a \<le> c - 2 * t * b + t * t * a"
proof -
  have "(c - 2 * t * b + t * t * a) - (c - 2 * 1 * b + 1 * 1 * a)
      = (1 - t) * (2 * (b - a) + (1 - t) * a)"
    by (simp add: algebra_simps)
  moreover have "0 \<le> (1 - t) * (2 * (b - a) + (1 - t) * a)"
    using assms by (intro mult_nonneg_nonneg add_nonneg_nonneg) simp_all
  ultimately show ?thesis by linarith
qed

lemma quad_inside:
  fixes a b c t :: real
  assumes "0 < a"
  shows "c - 2 * (b / a) * b + (b / a) * (b / a) * a \<le> c - 2 * t * b + t * t * a"
proof -
  have "(c - 2 * t * b + t * t * a) - (c - 2 * (b / a) * b + (b / a) * (b / a) * a)
      = a * ((t - b / a) * (t - b / a))"
    using assms by (simp add: field_simps)
  moreover have "0 \<le> a * ((t - b / a) * (t - b / a))"
    using assms by simp
  ultimately show ?thesis by linarith
qed

lemma closest_is_segment_point:
  "Vector2_add A (Vector2_scale (Vector2_subtract B A) k) = segment_point A B k"
  by (simp add: Vector2_add_def Vector2_scale_def Vector2_subtract_def segment_point_def
      mult.commute)

lemma lengthSq_pos:
  assumes "A \<noteq> B"
  shows "0 < Vector2_lengthSq (Vector2_subtract B A)"
proof -
  have "fst B - fst A \<noteq> 0 \<or> snd B - snd A \<noteq> 0"
    using assms by (auto simp add: prod_eq_iff)
  then have "0 < (fst B - fst A) * (fst B - fst A) + (snd B - snd A) * (snd B - snd A)"
    by (metis add.commute add_pos_nonneg not_real_square_gt_zero zero_le_square)
  then show ?thesis by (simp add: Vector2_lengthSq_def Vector2_subtract_def)
qed

lemma lagrange:
  "Vector2_lengthSq u * Vector2_lengthSq w - Vector2_dot w u * Vector2_dot w u
     = cross_z u w * cross_z u w"
  by (simp add: Vector2_lengthSq_def Vector2_dot_def cross_z_def algebra_simps)

lemma pointToSegmentDistance_cases:
  "pointToSegmentDistance A B P =
     (let b = Vector2_dot (Vector2_subtract P A) (Vector2_subtract B A);
          a = Vector2_lengthSq (Vector2_subtract B A)
      in Vector2_distance P (segment_point A B (if b \<le> 0 then 0 else if a \<le> b then 1 else b / a)))"
  by (simp add: pointToSegmentDistance_def Let_def closest_is_segment_point
      segment_point_0 segment_point_1)

lemma perpendicular:
  fixes a b c :: real
  assumes "0 < a" "a * c - b * b = k * k"
  shows "sqrt (c - 2 * (b / a) * b + (b / a) * (b / a) * a) = \<bar>k\<bar> / sqrt a"
proof -
  have "c - 2 * (b / a) * b + (b / a) * (b / a) * a = (a * c - b * b) / a"
    using assms(1) by (simp add: field_simps)
  then have "sqrt (c - 2 * (b / a) * b + (b / a) * (b / a) * a) = sqrt ((k * k) / a)"
    using assms(2) by simp
  also have "\<dots> = sqrt (k * k) / sqrt a" by (rule real_sqrt_divide)
  also have "sqrt (k * k) = \<bar>k\<bar>" by simp
  finally show ?thesis .
qed

text \<open>
  C10. For distinct end points \<open>A\<close> and \<open>B\<close>, \<open>pointToSegmentDistance A B P\<close> is the
  least distance from \<open>P\<close> to a point of the closed segment: it is at most the distance
  to every point of the segment and it is the distance to one of them. It is the
  distance to \<open>A\<close> when the projection of \<open>P\<close> falls at or before \<open>A\<close>, the distance
  to \<open>B\<close> when it falls at or past \<open>B\<close>, and otherwise the perpendicular distance from
  \<open>P\<close> to the line through \<open>A\<close> and \<open>B\<close>. (Numbers are reals here.)
\<close>

theorem pointToSegmentDistance_min:
  assumes "A \<noteq> B"
  shows "(\<forall>t. 0 \<le> t \<and> t \<le> 1 \<longrightarrow>
            pointToSegmentDistance A B P \<le> Vector2_distance P (segment_point A B t))
       \<and> (\<exists>t. 0 \<le> t \<and> t \<le> 1 \<and>
            pointToSegmentDistance A B P = Vector2_distance P (segment_point A B t))
       \<and> (Vector2_dot (Vector2_subtract P A) (Vector2_subtract B A) \<le> 0 \<longrightarrow>
            pointToSegmentDistance A B P = Vector2_distance P A)
       \<and> (Vector2_lengthSq (Vector2_subtract B A)
            \<le> Vector2_dot (Vector2_subtract P A) (Vector2_subtract B A) \<longrightarrow>
            pointToSegmentDistance A B P = Vector2_distance P B)
       \<and> (0 < Vector2_dot (Vector2_subtract P A) (Vector2_subtract B A) \<and>
          Vector2_dot (Vector2_subtract P A) (Vector2_subtract B A)
            < Vector2_lengthSq (Vector2_subtract B A) \<longrightarrow>
            pointToSegmentDistance A B P =
              \<bar>cross_z (Vector2_subtract B A) (Vector2_subtract P A)\<bar>
                / sqrt (Vector2_lengthSq (Vector2_subtract B A)))"
proof -
  define a where "a = Vector2_lengthSq (Vector2_subtract B A)"
  define b where "b = Vector2_dot (Vector2_subtract P A) (Vector2_subtract B A)"
  define c where "c = Vector2_lengthSq (Vector2_subtract P A)"
  define t0 where "t0 = (if b \<le> 0 then 0 else if a \<le> b then 1 else b / a)"
  have a_pos: "0 < a" unfolding a_def using assms by (rule lengthSq_pos)
  have val: "pointToSegmentDistance A B P = Vector2_distance P (segment_point A B t0)"
    by (simp add: pointToSegmentDistance_cases Let_def t0_def a_def b_def)
  have d: "Vector2_distance P (segment_point A B t) = sqrt (c - 2 * t * b + t * t * a)" for t
    by (simp add: distance_param a_def b_def c_def)
  have t0_range: "0 \<le> t0 \<and> t0 \<le> 1"
    using a_pos by (auto simp add: t0_def field_simps)
  have least: "c - 2 * t0 * b + t0 * t0 * a \<le> c - 2 * t * b + t * t * a"
    if "0 \<le> t" "t \<le> 1" for t
  proof (cases "b \<le> 0")
    case True
    then show ?thesis using quad_before [of b a t c] a_pos that by (simp add: t0_def)
  next
    case False
    show ?thesis
    proof (cases "a \<le> b")
      case True
      then show ?thesis
        using quad_after [of a b t c] a_pos that \<open>\<not> b \<le> 0\<close> by (simp add: t0_def)
    next
      case False
      then show ?thesis
        using quad_inside [of a c b t] a_pos \<open>\<not> b \<le> 0\<close> by (simp add: t0_def)
    qed
  qed
  have 1: "\<forall>t. 0 \<le> t \<and> t \<le> 1 \<longrightarrow>
      pointToSegmentDistance A B P \<le> Vector2_distance P (segment_point A B t)"
    using least by (simp add: val d)
  have 2: "\<exists>t. 0 \<le> t \<and> t \<le> 1 \<and>
      pointToSegmentDistance A B P = Vector2_distance P (segment_point A B t)"
    using t0_range val by blast
  have 3: "b \<le> 0 \<longrightarrow> pointToSegmentDistance A B P = Vector2_distance P A"
    by (simp add: val t0_def segment_point_0)
  have 4: "a \<le> b \<longrightarrow> pointToSegmentDistance A B P = Vector2_distance P B"
    using a_pos by (simp add: val t0_def segment_point_1)
  have lag: "a * c - b * b
      = cross_z (Vector2_subtract B A) (Vector2_subtract P A)
        * cross_z (Vector2_subtract B A) (Vector2_subtract P A)"
    unfolding a_def b_def c_def by (rule lagrange)
  have 5: "0 < b \<and> b < a \<longrightarrow> pointToSegmentDistance A B P =
      \<bar>cross_z (Vector2_subtract B A) (Vector2_subtract P A)\<bar> / sqrt a"
  proof
    assume "0 < b \<and> b < a"
    then have "t0 = b / a" by (simp add: t0_def)
    then show "pointToSegmentDistance A B P =
        \<bar>cross_z (Vector2_subtract B A) (Vector2_subtract P A)\<bar> / sqrt a"
      using perpendicular [OF a_pos lag] by (simp only: val d)
  qed
  show ?thesis
    using 1 2 3 4 5 unfolding a_def b_def by blast
qed

text \<open>
  The theorem on the segment from (0, 0) to (2, 0): a point before the start, a point
  past the end, and the point (1, 1) above the middle, whose distance is 1.
\<close>

theorem pointToSegmentDistance_min_witness:
  "((0, 0) :: vec2) \<noteq> (2, 0)
   \<and> pointToSegmentDistance (0, 0) (2, 0) (- 1, 1) = Vector2_distance (- 1, 1) (0, 0)
   \<and> pointToSegmentDistance (0, 0) (2, 0) (3, 1) = Vector2_distance (3, 1) (2, 0)
   \<and> pointToSegmentDistance (0, 0) (2, 0) (1, 1) = 1
   \<and> pointToSegmentDistance (0, 0) (2, 0) (1, 1)
       \<le> Vector2_distance (1, 1) (segment_point (0, 0) (2, 0) (1 / 4))"
proof -
  have ne: "((0, 0) :: vec2) \<noteq> (2, 0)" by simp
  have "pointToSegmentDistance (0, 0) (2, 0) (- 1, 1) = Vector2_distance (- 1, 1) (0, 0)"
    using pointToSegmentDistance_min [OF ne, of "(- 1, 1)"]
    by (simp add: Vector2_dot_def Vector2_subtract_def)
  moreover have "pointToSegmentDistance (0, 0) (2, 0) (3, 1) = Vector2_distance (3, 1) (2, 0)"
    using pointToSegmentDistance_min [OF ne, of "(3, 1)"]
    by (simp add: Vector2_dot_def Vector2_subtract_def Vector2_lengthSq_def)
  moreover have "pointToSegmentDistance (0, 0) (2, 0) (1, 1) = 1"
    using pointToSegmentDistance_min [OF ne, of "(1, 1)"]
    by (simp add: Vector2_dot_def Vector2_subtract_def Vector2_lengthSq_def cross_z_def)
  moreover have "pointToSegmentDistance (0, 0) (2, 0) (1, 1)
       \<le> Vector2_distance (1, 1) (segment_point (0, 0) (2, 0) (1 / 4))"
    using pointToSegmentDistance_min [OF ne, of "(1, 1)"] by simp
  ultimately show ?thesis using ne by blast
qed


section \<open>Passes of the search loop in one tick\<close>

lemma sum_frames_cong:
  "\<forall>r \<in> set xs. F' r = F r
     \<Longrightarrow> sum_list (map (\<lambda>r. g (F' r)) xs) = sum_list (map (\<lambda>r. g (F r)) xs)"
  by (induction xs) simp_all

lemma sum_butlast:
  "xs \<noteq> [] \<Longrightarrow> sum_list (map h xs) = sum_list (map h (butlast xs)) + h (last xs)"
proof -
  assume "xs \<noteq> []"
  then have "xs = butlast xs @ [last xs]" by simp
  then have "sum_list (map h xs) = sum_list (map h (butlast xs @ [last xs]))" by simp
  then show ?thesis by simp
qed

lemma set_frame_stack: "stateStack (set_frame r f s) = stateStack s"
  by (simp add: set_frame_def)

lemma frame_passes_pos: "frame_ok f \<Longrightarrow> 0 < frame_passes f"
  by (auto simp add: frame_ok_def frame_passes_def)

lemma passes_needed_zero:
  "\<forall>r \<in> set (stateStack s). frame_ok (frames s r) \<Longrightarrow> passes_needed s = 0
     \<Longrightarrow> stateStack s = []"
  by (cases "stateStack s") (auto simp add: passes_needed_def dest: frame_passes_pos)

lemma restore_planks_count: "noImprovementCount (restore_planks s ps) = noImprovementCount s"
proof (induction ps arbitrary: s)
  case Nil
  then show ?case by simp
next
  case (Cons plank rest)
  obtain w' plankBody where
    c: "g_createPlank (g_world s) (sp_position plank) (sp_angle plank) = (w', plankBody)"
    by (cases "g_createPlank (g_world s) (sp_position plank) (sp_angle plank)")
  show ?case
    by (simp add: c Cons.IH)
qed

lemma restoreWorldState_count:
  "noImprovementCount (restoreWorldState s snap) = noImprovementCount s"
  by (simp add: restoreWorldState_def Let_def restore_planks_count)

lemma restore_pow_count:
  "noImprovementCount (((\<lambda>x. restoreWorldState x snap) ^^ n) s) = noImprovementCount s"
  by (induction n) (simp_all add: restoreWorldState_count)

lemma rewind_count: "noImprovementCount (rewindCurrentState s) = noImprovementCount s"
  by (simp add: rewindCurrentState_def Let_def restore_pow_count)

lemma track_progress_count:
  "noImprovementCount (track_progress s) \<le> noImprovementCount s + 1"
  by (auto simp add: track_progress_def)

lemma sim_run_contact:
  assumes "contactPairsWith E (world_step E (g_world s)) \<noteq> []"
  shows "simulateUntilNextNote E state s =
           (Returned False,
            set_frame state (\<lambda>f. f\<lparr>simulationSteps := simulationSteps f + 1\<rparr>)
              (s\<lparr>g_world := world_step E (g_world s)\<rparr>))"
  using assms
  by (simp add: simulateUntilNextNote_def sim_run.simps [of E 0 state s]
      MAX_SIMULATION_STEPS_def Let_def set_frame_def)

lemma tryPlacePlank_rejected:
  assumes "\<forall>a b. \<not> checkHistoricalCollisions E s a b"
  shows "tryPlacePlank E f s = (False, s)"
  using assms by (simp add: tryPlacePlank_def Let_def split: prod.splits)

lemma blocked_pass:
  assumes contact: "\<forall>w. contactPairsWith E w \<noteq> []"
    and reject: "\<forall>s a b. \<not> checkHistoricalCollisions E s a b"
    and ne: "stateStack s \<noteq> []"
    and ok: "\<forall>r \<in> set (stateStack s). frame_ok (frames s r)"
    and dist: "distinct (stateStack s)"
    and cnt: "noImprovementCount s < 2000"
  shows "\<exists>s'. loop_pass E s = (Completed False, s')
           \<and> passes_needed s' + 1 = passes_needed s
           \<and> (\<forall>r \<in> set (stateStack s'). frame_ok (frames s' r))
           \<and> distinct (stateStack s')
           \<and> noImprovementCount s' \<le> noImprovementCount s + 1"
proof -
  define s1 where "s1 = track_progress s"
  define cur where "cur = last (stateStack s)"
  have k1: "stateStack s1 = stateStack s" "frames s1 = frames s"
    by (simp_all add: s1_def track_progress_keep)
  have c1: "noImprovementCount s1 \<le> noImprovementCount s + 1"
    unfolding s1_def by (rule track_progress_count)
  then have small: "\<not> noImprovementCount s1 > 2000" using cnt by simp
  have split: "passes_needed s
      = sum_list (map (\<lambda>r. frame_passes (frames s r)) (butlast (stateStack s)))
        + frame_passes (frames s cur)"
    using sum_butlast [OF ne, of "\<lambda>r. frame_passes (frames s r)"]
    by (simp add: passes_needed_def cur_def)
  have mem: "cur \<in> set (stateStack s)" using ne by (simp add: cur_def)
  have ok_cur: "frame_ok (frames s cur)" using ok mem by simp
  have notin: "cur \<notin> set (butlast (stateStack s))"
    using dist ne by (metis cur_def append_butlast_last_id distinct_append
        disjoint_iff list.set_intros(1))
  have sub: "set (butlast (stateStack s)) \<subseteq> set (stateStack s)"
    by (auto dest: in_set_butlastD)
  have dist': "distinct (butlast (stateStack s))" using dist by (rule distinct_butlast)
  have lp: "loop_pass E s =
     (if rotationIndex (frames s cur) = - 1 then
        (case simulateUntilNextNote E cur s1 of
           (Awaiting steps, s3) \<Rightarrow> (Stopped cur steps, s3)
         | (Returned success, s3) \<Rightarrow>
             (case after_sim E success cur s3 of
                (s4, counted) \<Rightarrow> (Completed counted, s4)))
      else
        (case try_step E cur s1 of
           (s3, counted) \<Rightarrow> (Completed counted, s3)))"
    using small unfolding loop_pass_def Let_def s1_def [symmetric]
    by (simp add: cur_def k1 cong: prod.case_cong sim_result.case_cong)
  have popped: "passes_needed s' + 1 = passes_needed s
         \<and> (\<forall>r \<in> set (stateStack s'). frame_ok (frames s' r))
         \<and> distinct (stateStack s')"
    if st: "stateStack s' = butlast (stateStack s)"
      and fr: "\<forall>r. r \<noteq> cur \<longrightarrow> frames s' r = frames s r"
      and one: "frame_passes (frames s cur) = 1"
    for s' :: scene
  proof -
    have same: "\<forall>r \<in> set (butlast (stateStack s)). frames s' r = frames s r"
      using fr notin by auto
    have "passes_needed s'
        = sum_list (map (\<lambda>r. frame_passes (frames s r)) (butlast (stateStack s)))"
      unfolding passes_needed_def st using same by (rule sum_frames_cong)
    moreover have "\<forall>r \<in> set (stateStack s'). frame_ok (frames s' r)"
      using same ok sub by (auto simp add: st)
    ultimately show ?thesis
      using split one dist' by (simp add: st)
  qed
  show ?thesis
  proof (cases "rotationIndex (frames s cur) = - 1")
    case True
    let ?s' = "rewindCurrentState
        (set_frame cur (\<lambda>f. f\<lparr>simulationSteps := simulationSteps f + 1\<rparr>)
           (s1\<lparr>g_world := world_step E (g_world s1)\<rparr>))"
    have "loop_pass E s = (Completed False, ?s')"
      using True contact by (simp add: lp sim_run_contact after_sim_def)
    moreover have "stateStack ?s' = butlast (stateStack s)"
      by (simp add: rewind_keep set_frame_def k1)
    moreover have "\<forall>r. r \<noteq> cur \<longrightarrow> frames ?s' r = frames s r"
      by (simp add: rewind_keep set_frame_def k1)
    moreover have "noImprovementCount ?s' = noImprovementCount s1"
      by (simp add: rewind_count set_frame_def)
    moreover have "frame_passes (frames s cur) = 1" using True by (simp add: frame_passes_def)
    ultimately show ?thesis using popped [of ?s'] c1 by simp
  next
    case False
    then have rng0: "0 \<le> rotationIndex (frames s cur)" "rotationIndex (frames s cur) < 11"
      "length (rotationPermutation (frames s cur)) = 11"
      "list_all (\<lambda>i. i < 11) (rotationPermutation (frames s cur))"
      using ok_cur by (simp_all add: frame_ok_def)
    let ?s2 = "set_frame cur (\<lambda>f. f\<lparr>rotationIndex := rotationIndex f + 1\<rparr>) s1"
    have rej: "tryPlacePlank E (frames s1 cur) s1 = (False, s1)"
      using tryPlacePlank_rejected [of E s1] reject by simp
    have ri2: "rotationIndex (frames ?s2 cur) = rotationIndex (frames s cur) + 1"
      by (simp add: set_frame_def k1)
    show ?thesis
    proof (cases "rotationIndex (frames s cur) + 1 \<ge> 11")
      case True
      let ?s' = "rewindCurrentState ?s2"
      have "loop_pass E s = (Completed False, ?s')"
        using False True rej ri2
        by (simp add: lp try_step_def Let_def length_PLANK_ROTATIONS)
      moreover have "stateStack ?s' = butlast (stateStack s)"
        by (simp add: rewind_keep set_frame_def k1)
      moreover have "\<forall>r. r \<noteq> cur \<longrightarrow> frames ?s' r = frames s r"
        by (simp add: rewind_keep set_frame_def k1)
      moreover have "noImprovementCount ?s' = noImprovementCount s1"
        by (simp add: rewind_count set_frame_def)
      moreover have "frame_passes (frames s cur) = 1"
        using False True rng0 by (simp add: frame_passes_def)
      ultimately show ?thesis using popped [of ?s'] c1 by simp
    next
      case more: False
      have lp': "loop_pass E s = (Completed False, ?s2)"
        using False more rej ri2
        by (simp add: lp try_step_def Let_def length_PLANK_ROTATIONS)
      have st': "stateStack ?s2 = stateStack s" by (simp add: set_frame_def k1)
      have same: "\<forall>r \<in> set (butlast (stateStack s)). frames ?s2 r = frames s r"
        using notin by (auto simp add: set_frame_def k1)
      have fp: "frame_passes (frames ?s2 cur) + 1 = frame_passes (frames s cur)"
        using False more rng0 by (simp add: frame_passes_def set_frame_def k1)
      have okc: "frame_ok (frames ?s2 cur)"
        using rng0 more by (simp add: frame_ok_def set_frame_def k1)
      have "passes_needed ?s2
          = sum_list (map (\<lambda>r. frame_passes (frames ?s2 r)) (butlast (stateStack s)))
            + frame_passes (frames ?s2 cur)"
        using sum_butlast [OF ne, of "\<lambda>r. frame_passes (frames ?s2 r)"]
        by (simp add: passes_needed_def set_frame_stack k1 cur_def)
      also have "sum_list (map (\<lambda>r. frame_passes (frames ?s2 r)) (butlast (stateStack s)))
          = sum_list (map (\<lambda>r. frame_passes (frames s r)) (butlast (stateStack s)))"
        using same by (rule sum_frames_cong)
      finally have pn: "passes_needed ?s2 + 1 = passes_needed s"
        using split fp by simp
      have okall: "\<forall>r \<in> set (stateStack ?s2). frame_ok (frames ?s2 r)"
      proof
        fix r assume r: "r \<in> set (stateStack ?s2)"
        show "frame_ok (frames ?s2 r)"
        proof (cases "r = cur")
          case True
          then show ?thesis using okc by simp
        next
          case False
          then have "frames ?s2 r = frames s r" by (simp add: set_frame_def k1)
          then show ?thesis using ok r st' by simp
        qed
      qed
      have "noImprovementCount ?s2 = noImprovementCount s1" by (simp add: set_frame_def)
      then show ?thesis using lp' pn okall dist st' c1 by auto
    qed
  qed
qed

lemma blocked_run:
  assumes contact: "\<forall>w. contactPairsWith E w \<noteq> []"
    and reject: "\<forall>s a b. \<not> checkHistoricalCollisions E s a b"
  shows "passes_needed s = k \<Longrightarrow> \<forall>r \<in> set (stateStack s). frame_ok (frames s r)
     \<Longrightarrow> distinct (stateStack s)
     \<Longrightarrow> noImprovementCount s + k \<le> 2000 \<Longrightarrow> iterations < iterationsPerFrame
     \<Longrightarrow> \<exists>s'. gen_loop E iterationsPerFrame iterations s passes = (Ended, s', passes + k)
            \<and> stateStack s' = []"
proof (induction k arbitrary: s passes)
  case 0
  then have "stateStack s = []" using passes_needed_zero by blast
  then show ?case by (simp add: gen_loop.simps [of E iterationsPerFrame iterations s passes])
next
  case (Suc k)
  have ne: "stateStack s \<noteq> []" using Suc.prems(1) by (auto simp add: passes_needed_def)
  have cnt: "noImprovementCount s < 2000" using Suc.prems(4) by simp
  obtain s1 where s1: "loop_pass E s = (Completed False, s1)"
    "passes_needed s1 + 1 = passes_needed s"
    "\<forall>r \<in> set (stateStack s1). frame_ok (frames s1 r)"
    "distinct (stateStack s1)"
    "noImprovementCount s1 \<le> noImprovementCount s + 1"
    using blocked_pass [OF contact reject ne Suc.prems(2) Suc.prems(3) cnt] by blast
  have "\<exists>s'. gen_loop E iterationsPerFrame iterations s1 (passes + 1)
            = (Ended, s', passes + 1 + k) \<and> stateStack s' = []"
  proof (rule Suc.IH)
    show "passes_needed s1 = k" using s1(2) Suc.prems(1) by simp
    show "\<forall>r \<in> set (stateStack s1). frame_ok (frames s1 r)" by (rule s1(3))
    show "distinct (stateStack s1)" by (rule s1(4))
    show "noImprovementCount s1 + k \<le> 2000" using s1(5) Suc.prems(4) by simp
    show "iterations < iterationsPerFrame" by (rule Suc.prems(5))
  qed
  moreover have "gen_loop E iterationsPerFrame iterations s passes
      = gen_loop E iterationsPerFrame iterations s1 (passes + 1)"
    using ne Suc.prems(5) s1(1)
    by (simp add: gen_loop.simps [of E iterationsPerFrame iterations s passes])
  ultimately show ?case by simp
qed

lemma busy_scene_passes: "passes_needed busy_scene = 23"
  by (simp add: busy_scene_def passes_needed_def frame_passes_def)

lemma busy_scene_ok: "\<forall>r \<in> set (stateStack busy_scene). frame_ok (frames busy_scene r)"
  by (simp add: busy_scene_def frame_ok_def)

text \<open>
  C8 fails on the code. \<open>iterations\<close> is only incremented at the end of a pass that
  placed a plank; a pass that ends in \<open>continue\<close> (a failed simulation, a rejected
  candidate, a rewind) leaves it unchanged. In \<open>busy_scene\<close>, with the ball touching
  something and no candidate passing the history check, the driver that one call of
  \<open>update\<close> starts makes 23 passes through the loop (1 for the top frame, 11 for each
  of the two frames below) although the budget is 20, and it makes them all before the
  host gets control back: no driver is left waiting.
\<close>

theorem passes_exceed_budget:
  "snd (update blocked_env \<lparr>p_scene = busy_scene, p_waiting = []\<rparr>) = 23
   \<and> p_waiting (fst (update blocked_env \<lparr>p_scene = busy_scene, p_waiting = []\<rparr>)) = []
   \<and> isGenerating busy_scene \<and> length (stateStack busy_scene) = 3"
proof -
  have contact: "\<forall>w. contactPairsWith blocked_env w \<noteq> []"
    by (simp add: blocked_env_def quiet_env_def)
  have reject: "\<forall>s a b. \<not> checkHistoricalCollisions blocked_env s a b"
    by (simp add: blocked_env_def quiet_env_def)
  have "\<exists>s'. gen_loop blocked_env 20 0 busy_scene 0 = (Ended, s', 0 + 23)
            \<and> stateStack s' = []"
  proof (rule blocked_run [OF contact reject])
    show "passes_needed busy_scene = 23" by (rule busy_scene_passes)
    show "\<forall>r \<in> set (stateStack busy_scene). frame_ok (frames busy_scene r)"
      by (rule busy_scene_ok)
    show "distinct (stateStack busy_scene)" by (simp add: busy_scene_def)
    show "noImprovementCount busy_scene + 23 \<le> 2000" by (simp add: busy_scene_def)
    show "(0::nat) < 20" by simp
  qed
  then obtain s' where "gen_loop blocked_env 20 0 busy_scene 0 = (Ended, s', 23)" by auto
  then have "update blocked_env \<lparr>p_scene = busy_scene, p_waiting = []\<rparr>
      = (\<lparr>p_scene = after_loop blocked_env s', p_waiting = []\<rparr>, 23)"
    by (simp add: update_def generateWithBacktracking_def run_driver_def busy_scene_def)
  then show ?thesis by (simp add: busy_scene_def)
qed

section \<open>An empty search stack ends the generation\<close>

lemma try_step_stack:
  assumes "try_step E cur s = (s', counted)"
  shows "(counted \<longrightarrow> stateStack s' = stateStack s @ [next_frame s])
       \<and> (\<not> counted \<longrightarrow> stateStack s' = stateStack s
                             \<or> stateStack s' = butlast (stateStack s))"
proof -
  obtain b s1 where t: "tryPlacePlank E (frames s cur) s = (b, s1)"
    by (cases "tryPlacePlank E (frames s cur) s")
  have k1: "stateStack s1 = stateStack s" "frames s1 = frames s"
    using tryPlacePlank_keep [OF t] by simp_all
  have nf: "next_frame s1 = next_frame s"
    using t by (auto simp add: tryPlacePlank_def Let_def g_createPlank_def
        split: prod.splits if_splits)
  show ?thesis
  proof (cases b)
    case True
    then have "s' = pushNewState E s1" "counted"
      using assms t by (simp_all add: try_step_def)
    then show ?thesis by (simp add: pushNewState_stack k1 nf)
  next
    case False
    then have "\<not> counted"
      "s' = rewindCurrentState
              (set_frame cur (\<lambda>f. f\<lparr>rotationIndex := rotationIndex f + 1\<rparr>) s1)
       \<or> s' = set_frame cur (\<lambda>f. f\<lparr>rotationIndex := rotationIndex f + 1\<rparr>) s1"
      using assms t by (auto simp add: try_step_def Let_def split: if_splits)
    then show ?thesis by (auto simp add: rewind_keep set_frame_def k1)
  qed
qed

lemma after_sim_stack:
  assumes "after_sim E success cur s = (s', counted)"
  shows "(counted \<longrightarrow> stateStack s' = stateStack s @ [next_frame s])
       \<and> (\<not> counted \<longrightarrow> stateStack s' = stateStack s
                             \<or> stateStack s' = butlast (stateStack s))"
proof (cases success)
  case False
  then show ?thesis using assms by (auto simp add: after_sim_def rewind_keep)
next
  case True
  obtain perm s1 where gp: "getRandomPermutation E (length PLANK_ROTATIONS) s = (perm, s1)"
    by (cases "getRandomPermutation E (length PLANK_ROTATIONS) s")
  have k1: "stateStack s1 = stateStack s" "next_frame s1 = next_frame s"
    using gp by (auto simp add: getRandomPermutation_def split: prod.splits)
  let ?s2 = "set_frame cur (\<lambda>f. f\<lparr>rotationPermutation := perm, rotationIndex := 0\<rparr>) s1"
  have "try_step E cur ?s2 = (s', counted)"
    using assms True gp by (simp add: after_sim_def)
  then show ?thesis
    using try_step_stack [of E cur ?s2 s' counted] by (simp add: set_frame_def k1)
qed

lemma loop_pass_stack:
  assumes "loop_pass E s = (Completed counted, s')"
  shows "(counted \<longrightarrow> stateStack s' = stateStack s @ [next_frame s])
       \<and> (\<not> counted \<longrightarrow> stateStack s' = stateStack s
                             \<or> stateStack s' = butlast (stateStack s))"
proof -
  define s1 where "s1 = track_progress s"
  define s2 where "s2 = (if noImprovementCount s1 > 2000 then reset_progress s1 else s1)"
  define cur where "cur = last (stateStack s2)"
  have k2: "stateStack s2 = stateStack s" "next_frame s2 = next_frame s"
    "stateStack s1 = stateStack s"
    by (simp_all add: s2_def s1_def track_progress_def reset_progress_def)
  have lp: "loop_pass E s =
     (if noImprovementCount s1 > 2000 \<and> near_best s1
      then (Completed False, rewindCurrentState s1)
      else if rotationIndex (frames s2 cur) = - 1 then
        (case simulateUntilNextNote E cur s2 of
           (Awaiting steps, s3) \<Rightarrow> (Stopped cur steps, s3)
         | (Returned success, s3) \<Rightarrow>
             (case after_sim E success cur s3 of
                (s4, counted) \<Rightarrow> (Completed counted, s4)))
      else
        (case try_step E cur s2 of
           (s3, counted) \<Rightarrow> (Completed counted, s3)))"
    unfolding loop_pass_def s1_def s2_def cur_def Let_def ..
  show ?thesis
  proof (cases "noImprovementCount s1 > 2000 \<and> near_best s1")
    case True
    then have "s' = rewindCurrentState s1" "\<not> counted" using assms by (simp_all add: lp)
    then show ?thesis by (simp add: rewind_keep k2)
  next
    case stag: False
    show ?thesis
    proof (cases "rotationIndex (frames s2 cur) = - 1")
      case False
      then have "try_step E cur s2 = (s', counted)"
        using assms stag by (simp add: lp split: prod.splits)
      then show ?thesis using try_step_stack [of E cur s2 s' counted] by (simp add: k2)
    next
      case True
      obtain res s3 where sim: "sim_run E 0 cur s2 = (res, s3)"
        by (cases "sim_run E 0 cur s2")
      have k3: "stateStack s3 = stateStack s" using sim_run_keep [OF sim] by (simp add: k2)
      have n3: "next_frame s3 = next_frame s"
      proof -
        have "\<And>steps s s' res. sim_run E steps cur s = (res, s')
            \<Longrightarrow> next_frame s' = next_frame s"
        proof -
          fix steps :: nat and s s' :: scene and res
          show "sim_run E steps cur s = (res, s') \<Longrightarrow> next_frame s' = next_frame s"
          proof (induction E steps cur s rule: sim_run.induct)
            case (1 E steps state s)
            let ?s1 = "set_frame state (\<lambda>f. f\<lparr>simulationSteps := simulationSteps f + 1\<rparr>)
                 (s\<lparr>g_world := world_step E (g_world s)\<rparr>)"
            let ?s2 = "?s1\<lparr>clock_reads := clock_reads ?s1 + 1\<rparr>"
            have keep: "next_frame ?s1 = next_frame s" "next_frame ?s2 = next_frame s"
              by (simp_all add: set_frame_def)
            show ?case
            proof (cases "sim_run E steps state s = sim_run E (steps + 1) state ?s2
                \<and> steps < MAX_SIMULATION_STEPS
                \<and> \<not> contactPairsWith E (g_world ?s1) \<noteq> []
                \<and> \<not> (noteIndex (frames ?s2 state) < length (s_notes ?s2)
                        \<and> performance_now E (clock_reads ?s1) - startTime ?s1
                            \<ge> note_time (s_notes ?s2 ! noteIndex (frames ?s2 state)))
                \<and> \<not> (snd (rb_translation (g_ball (g_world ?s2))) < - 10
                        \<or> snd (rb_translation (g_ball (g_world ?s2))) > 10)
                \<and> \<not> (steps + 1) mod 10 = 0")
              case True
              then have "next_frame s' = next_frame ?s2"
                using "1.IH" [of ?s1 "contactPairsWith E (g_world ?s1) \<noteq> []"
                    "performance_now E (clock_reads ?s1) - startTime ?s1" ?s2
                    "rb_translation (g_ball (g_world ?s2))"] "1.prems"
                by simp
              then show ?thesis using keep by simp
            next
              case False
              then have "s' = s \<or> s' = ?s1 \<or> s' = ?s2"
                using "1.prems"
                by (auto simp add: sim_run.simps [of E steps state s] Let_def split: if_splits)
              then show ?thesis using keep by auto
            qed
          qed
        qed
        then show ?thesis using sim by (simp add: k2)
      qed
      obtain success where res: "res = Returned success"
        using assms stag True sim
        by (cases res) (simp_all add: lp simulateUntilNextNote_def)
      have "after_sim E success cur s3 = (s', counted)"
        using assms stag True sim res
        by (simp add: lp simulateUntilNextNote_def split: prod.splits)
      then show ?thesis using after_sim_stack [of E success cur s3 s' counted]
        by (simp add: k3 n3)
    qed
  qed
qed

text \<open>
  C3, as the code has it. When a pass of the search loop leaves the stack empty, the
  pass has not counted and it has popped the frame (the stack had that one frame); the
  loop ends there, and the driver clears \<open>isGenerating\<close> and calls
  \<open>startRegularGameplay\<close>: the note index is back at 0, the start time is the clock,
  and the game goes on as regular gameplay. The same holds for a driver that waited in
  its simulation and pops the last frame when it goes on. Whenever the loop of a driver
  ends with the stack empty the driver hands off in this way, and when it ends with
  frames left it changes nothing more. There is no other outcome for an empty stack.
\<close>

theorem empty_stack_hands_off:
  "(iterations < iterationsPerFrame \<and> stateStack s \<noteq> []
      \<and> loop_pass E s = (Completed counted, s') \<and> stateStack s' = []
      \<longrightarrow> \<not> counted \<and> stateStack s' = butlast (stateStack s)
        \<and> gen_loop E iterationsPerFrame iterations s passes = (Ended, s', passes + 1)
        \<and> run_driver E iterationsPerFrame iterations s passes
            = (Ended, startRegularGameplay E (s'\<lparr>isGenerating := False\<rparr>), passes + 1))
   \<and> (gen_loop E iterationsPerFrame iterations s passes = (Ended, s1, passes')
      \<and> stateStack s1 = []
      \<longrightarrow> run_driver E iterationsPerFrame iterations s passes
            = (Ended, startRegularGameplay E (s1\<lparr>isGenerating := False\<rparr>), passes'))
   \<and> (gen_loop E iterationsPerFrame iterations s passes = (Ended, s1, passes')
      \<and> stateStack s1 \<noteq> []
      \<longrightarrow> run_driver E iterationsPerFrame iterations s passes = (Ended, s1, passes'))
   \<and> (sim_run E (d_steps d) (d_currentState d) s = (Returned success, s2)
      \<and> after_sim E success (d_currentState d) s2 = (s3, counted) \<and> stateStack s3 = []
      \<longrightarrow> resume_driver E d s
            = (Ended, startRegularGameplay E (s3\<lparr>isGenerating := False\<rparr>), 0))
   \<and> generateWithBacktracking E iterationsPerFrame s = run_driver E iterationsPerFrame 0 s 0
   \<and> stateStack (rewindCurrentState s) = butlast (stateStack s)
   \<and> \<not> isGenerating (startRegularGameplay E (s1\<lparr>isGenerating := False\<rparr>))
   \<and> currentNoteIndex (startRegularGameplay E (s1\<lparr>isGenerating := False\<rparr>)) = 0
   \<and> startTime (startRegularGameplay E (s1\<lparr>isGenerating := False\<rparr>))
       = performance_now E (clock_reads s1)
   \<and> stateStack (startRegularGameplay E (s1\<lparr>isGenerating := False\<rparr>)) = stateStack s1"
proof -
  have 1: "\<not> counted \<and> stateStack s' = butlast (stateStack s)
        \<and> gen_loop E iterationsPerFrame iterations s passes = (Ended, s', passes + 1)
        \<and> run_driver E iterationsPerFrame iterations s passes
            = (Ended, startRegularGameplay E (s'\<lparr>isGenerating := False\<rparr>), passes + 1)"
    if a: "iterations < iterationsPerFrame" "stateStack s \<noteq> []"
      "loop_pass E s = (Completed counted, s')" "stateStack s' = []"
  proof -
    have nc: "\<not> counted"
      using loop_pass_stack [OF a(3)] a(4) by auto
    then have pop: "stateStack s' = butlast (stateStack s)"
      using loop_pass_stack [OF a(3)] a(2,4) by auto
    have g: "gen_loop E iterationsPerFrame iterations s passes = (Ended, s', passes + 1)"
      using a nc
      by (simp add: gen_loop.simps [of E iterationsPerFrame iterations s passes]
          gen_loop.simps [of E iterationsPerFrame iterations s' "Suc passes"])
    show ?thesis using nc pop g a(4) by (simp add: run_driver_def after_loop_def)
  qed
  have c1: "iterations < iterationsPerFrame \<and> stateStack s \<noteq> []
      \<and> loop_pass E s = (Completed counted, s') \<and> stateStack s' = []
      \<longrightarrow> \<not> counted \<and> stateStack s' = butlast (stateStack s)
        \<and> gen_loop E iterationsPerFrame iterations s passes = (Ended, s', passes + 1)
        \<and> run_driver E iterationsPerFrame iterations s passes
            = (Ended, startRegularGameplay E (s'\<lparr>isGenerating := False\<rparr>), passes + 1)"
    using 1 by blast
  have c2: "gen_loop E iterationsPerFrame iterations s passes = (Ended, s1, passes')
      \<and> stateStack s1 = []
      \<longrightarrow> run_driver E iterationsPerFrame iterations s passes
            = (Ended, startRegularGameplay E (s1\<lparr>isGenerating := False\<rparr>), passes')"
    by (simp add: run_driver_def after_loop_def)
  have c3: "gen_loop E iterationsPerFrame iterations s passes = (Ended, s1, passes')
      \<and> stateStack s1 \<noteq> []
      \<longrightarrow> run_driver E iterationsPerFrame iterations s passes = (Ended, s1, passes')"
    by (simp add: run_driver_def after_loop_def)
  have c3': "sim_run E (d_steps d) (d_currentState d) s = (Returned success, s2)
      \<and> after_sim E success (d_currentState d) s2 = (s3, counted) \<and> stateStack s3 = []
      \<longrightarrow> resume_driver E d s
            = (Ended, startRegularGameplay E (s3\<lparr>isGenerating := False\<rparr>), 0)"
    by (simp add: resume_driver_def run_driver_def after_loop_def
        gen_loop.simps [of E _ _ s3 0])
  have c4: "generateWithBacktracking E iterationsPerFrame s
      = run_driver E iterationsPerFrame 0 s 0"
    by (simp add: generateWithBacktracking_def)
  have c5: "stateStack (rewindCurrentState s) = butlast (stateStack s)"
    by (simp add: rewind_keep)
  have c6: "\<not> isGenerating (startRegularGameplay E (s1\<lparr>isGenerating := False\<rparr>))"
    "currentNoteIndex (startRegularGameplay E (s1\<lparr>isGenerating := False\<rparr>)) = 0"
    "startTime (startRegularGameplay E (s1\<lparr>isGenerating := False\<rparr>))
       = performance_now E (clock_reads s1)"
    "stateStack (startRegularGameplay E (s1\<lparr>isGenerating := False\<rparr>)) = stateStack s1"
    by (simp_all add: startRegularGameplay_def)
  show ?thesis by (intro conjI c1 c2 c3 c3' c4 c5 c6)
qed

lemma contact_pass:
  "\<exists>s'. loop_pass contact_env (startGeneration contact_env idle_scene) = (Completed False, s')
     \<and> stateStack s' = []"
proof -
  let ?S = "startGeneration contact_env idle_scene"
  have contact: "\<forall>w. contactPairsWith contact_env w \<noteq> []"
    by (simp add: contact_env_def quiet_env_def)
  have reject: "\<forall>s a b. \<not> checkHistoricalCollisions contact_env s a b"
    by (simp add: contact_env_def quiet_env_def)
  have st: "stateStack ?S = [0]" "frames ?S 0 = \<lparr>noteIndex = 0, rotationIndex = - 1,
      rotationPermutation = [], worldState = \<lparr>ballPosition = (0, - 4), ballVelocity = (2, 10),
      snap_planks = [], snap_time = 0\<rparr>, simulationSteps = 0\<rparr>" "noImprovementCount ?S = 0"
    by (simp_all add: startGeneration_def saveWorldState_def idle_scene_def contact_env_def
        quiet_env_def)
  obtain s' where s': "loop_pass contact_env ?S = (Completed False, s')"
    "passes_needed s' + 1 = passes_needed ?S"
    "\<forall>r \<in> set (stateStack s'). frame_ok (frames s' r)"
    using blocked_pass [OF contact reject, of ?S] st by (auto simp add: frame_ok_def)
  have "passes_needed ?S = 1" by (simp add: passes_needed_def st frame_passes_def)
  then have "passes_needed s' = 0" using s'(2) by simp
  then have "stateStack s' = []" using passes_needed_zero [OF s'(3)] by simp
  then show ?thesis using s'(1) by blast
qed

theorem empty_stack_hands_off_witness:
  "fst (loop_pass contact_env (startGeneration contact_env idle_scene)) = Completed False
   \<and> stateStack (startGeneration contact_env idle_scene) = [0]
   \<and> stateStack (snd (loop_pass contact_env (startGeneration contact_env idle_scene))) = []
   \<and> generateWithBacktracking contact_env 20 (startGeneration contact_env idle_scene)
       = (Ended,
          startRegularGameplay contact_env
            ((snd (loop_pass contact_env (startGeneration contact_env idle_scene)))
               \<lparr>isGenerating := False\<rparr>),
          1)"
proof -
  let ?S = "startGeneration contact_env idle_scene"
  obtain s' where s': "loop_pass contact_env ?S = (Completed False, s')" "stateStack s' = []"
    using contact_pass by blast
  have st: "stateStack ?S = [0]"
    by (simp add: startGeneration_def saveWorldState_def idle_scene_def)
  have "run_driver contact_env 20 0 ?S 0
      = (Ended, startRegularGameplay contact_env (s'\<lparr>isGenerating := False\<rparr>), 0 + 1)"
    using empty_stack_hands_off [of 0 20 ?S contact_env False s' 0] s' st by simp
  then show ?thesis using s' st by (simp add: generateWithBacktracking_def)
qed

text \<open>
  The claim as the specification states it (an empty stack after backtracking is the
  FAILED outcome and not the handoff to regular gameplay) fails on the first tick of a
  generation in which the ball touches something after its first step: the only frame
  is popped, the stack is empty, and \<open>update\<close> leaves the scene as
  \<open>startRegularGameplay\<close> makes it, with \<open>isGenerating\<close> false and the note index
  at 0, after one pass; no driver is left waiting.
\<close>

theorem empty_stack_counterexample:
  "isGenerating (startGeneration contact_env idle_scene)
   \<and> stateStack (startGeneration contact_env idle_scene) = [0]
   \<and> snd (update contact_env
        \<lparr>p_scene = startGeneration contact_env idle_scene, p_waiting = []\<rparr>) = 1
   \<and> p_waiting (fst (update contact_env
        \<lparr>p_scene = startGeneration contact_env idle_scene, p_waiting = []\<rparr>)) = []
   \<and> stateStack (p_scene (fst (update contact_env
        \<lparr>p_scene = startGeneration contact_env idle_scene, p_waiting = []\<rparr>))) = []
   \<and> \<not> isGenerating (p_scene (fst (update contact_env
        \<lparr>p_scene = startGeneration contact_env idle_scene, p_waiting = []\<rparr>)))
   \<and> currentNoteIndex (p_scene (fst (update contact_env
        \<lparr>p_scene = startGeneration contact_env idle_scene, p_waiting = []\<rparr>))) = 0"
proof -
  let ?S = "startGeneration contact_env idle_scene"
  obtain s' where s': "loop_pass contact_env ?S = (Completed False, s')" "stateStack s' = []"
    using contact_pass by blast
  have st: "stateStack ?S = [0]" "isGenerating ?S"
    by (simp_all add: startGeneration_def saveWorldState_def idle_scene_def)
  have g: "gen_loop contact_env 20 0 ?S 0 = (Ended, s', 1)"
    using s' st
    by (simp add: gen_loop.simps [of contact_env 20 0 ?S 0]
        gen_loop.simps [of contact_env 20 0 s' "Suc 0"])
  have "update contact_env \<lparr>p_scene = ?S, p_waiting = []\<rparr>
      = (\<lparr>p_scene = startRegularGameplay contact_env (s'\<lparr>isGenerating := False\<rparr>),
          p_waiting = []\<rparr>, 1)"
    using g s'(2) st(2)
    by (simp add: update_def generateWithBacktracking_def run_driver_def after_loop_def)
  then show ?thesis using st s'(2) by (simp add: startRegularGameplay_def)
qed

section \<open>The step cap of the forward simulation\<close>

lemma more_steps_add: "more_steps r a (more_steps r b s) = more_steps r (b + a) s"
  by (simp add: more_steps_def add.assoc)

lemma quiet_env_simps:
  "world_step quiet_env = (\<lambda>w. w)" "contactPairsWith quiet_env = (\<lambda>w. [])"
  "performance_now quiet_env = (\<lambda>k. 0)"
  "checkHistoricalCollisions quiet_env = (\<lambda>s a b. False)"
  by (simp_all add: quiet_env_def)

lemma more_steps_zero: "more_steps r 0 s = s"
  by (simp add: more_steps_def)

lemma calm_more_steps: "calm r s \<Longrightarrow> calm r (more_steps q k s)"
  by (auto simp add: calm_def more_steps_def)

lemma calm_track_progress: "calm r s \<Longrightarrow> calm r (track_progress s)"
  by (simp add: calm_def track_progress_def)

lemma quiet_one_step:
  assumes "calm r s" "steps < 200"
  shows "sim_run quiet_env steps r s =
     (if (steps + 1) mod 10 = 0 then (Awaiting (steps + 1), more_steps r 1 s)
      else sim_run quiet_env (steps + 1) r (more_steps r 1 s))"
proof -
  let ?s1 = "set_frame r (\<lambda>f. f\<lparr>simulationSteps := simulationSteps f + 1\<rparr>)
               (s\<lparr>g_world := world_step quiet_env (g_world s)\<rparr>)"
  let ?s2 = "?s1\<lparr>clock_reads := clock_reads ?s1 + 1\<rparr>"
  have s2: "?s2 = more_steps r 1 s"
    by (simp add: set_frame_def more_steps_def quiet_env_simps)
  have c: "\<not> contactPairsWith quiet_env (g_world ?s1) \<noteq> []"
    by (simp add: quiet_env_simps)
  have t: "\<not> (noteIndex (frames ?s2 r) < length (s_notes ?s2)
        \<and> performance_now quiet_env (clock_reads ?s1) - startTime ?s1
            \<ge> note_time (s_notes ?s2 ! noteIndex (frames ?s2 r)))"
    using assms(1) by (auto simp add: calm_def set_frame_def quiet_env_simps)
  have b: "\<not> (snd (rb_translation (g_ball (g_world ?s2))) < - 10
        \<or> snd (rb_translation (g_ball (g_world ?s2))) > 10)"
    using assms(1) by (auto simp add: calm_def set_frame_def quiet_env_simps)
  have lt: "steps < MAX_SIMULATION_STEPS" using assms(2) by (simp add: MAX_SIMULATION_STEPS_def)
  show ?thesis
    apply (subst sim_run.simps)
    apply (simp only: Let_def lt c t b if_True if_False)
    apply (simp only: s2)
    done
qed

lemma quiet_steps:
  "calm r s \<Longrightarrow> steps mod 10 + Suc m = 10 \<Longrightarrow> steps + Suc m \<le> 200
     \<Longrightarrow> sim_run quiet_env steps r s = (Awaiting (steps + Suc m), more_steps r (Suc m) s)"
proof (induction m arbitrary: steps s)
  case 0
  have "Suc steps mod 10 = 0" using "0.prems"(2) by (simp add: mod_Suc)
  then have z: "(steps + 1) mod 10 = 0" by simp
  have lt: "steps < 200" using "0.prems"(3) by simp
  show ?case
    unfolding quiet_one_step [OF "0.prems"(1) lt] using z by simp
next
  case (Suc m)
  have "Suc steps mod 10 = Suc (steps mod 10)" using Suc.prems(2) by (simp add: mod_Suc)
  then have m1: "(steps + 1) mod 10 = Suc (steps mod 10)" by simp
  have ne: "(steps + 1) mod 10 \<noteq> 0" using m1 by simp
  have md: "(steps + 1) mod 10 + Suc m = 10" using m1 Suc.prems(2) by simp
  have lt: "steps < 200" using Suc.prems(3) by simp
  have "sim_run quiet_env steps r s = sim_run quiet_env (steps + 1) r (more_steps r 1 s)"
    unfolding quiet_one_step [OF Suc.prems(1) lt] using ne by simp
  also have "\<dots> = (Awaiting (steps + 1 + Suc m), more_steps r (Suc m) (more_steps r 1 s))"
  proof (rule Suc.IH)
    show "calm r (more_steps r 1 s)" using Suc.prems(1) by (rule calm_more_steps)
    show "(steps + 1) mod 10 + Suc m = 10" by (rule md)
    show "steps + 1 + Suc m \<le> 200" using Suc.prems(3) by simp
  qed
  finally show ?case by (simp add: more_steps_add)
qed

lemma quiet_chunk:
  assumes "calm r s" "steps mod 10 = 0" "steps < 200"
  shows "sim_run quiet_env steps r s = (Awaiting (steps + 10), more_steps r 10 s)"
proof -
  have "steps + 10 \<le> 200" using assms(2,3) by (auto simp add: mod_eq_0_iff_dvd elim!: dvdE)
  then show ?thesis using quiet_steps [of r s steps 9] assms by simp
qed

lemma timer_chunk:
  assumes "calm (d_currentState d) s" "d_steps d mod 10 = 0" "d_steps d < 200"
  shows "resume_driver quiet_env d s =
           (Suspended (d\<lparr>d_steps := d_steps d + 10\<rparr>), more_steps (d_currentState d) 10 s, 0)"
  using quiet_chunk [OF assms] by (simp add: resume_driver_def)

lemma frame_chunk:
  assumes "isGenerating s" "stateStack s \<noteq> []"
    "rotationIndex (frames s (last (stateStack s))) = - 1"
    "calm (last (stateStack s)) s" "noImprovementCount s < 2000"
  shows "update quiet_env \<lparr>p_scene = s, p_waiting = ws\<rparr> =
     (\<lparr>p_scene = more_steps (last (stateStack s)) 10 (track_progress s),
       p_waiting = ws @ [\<lparr>d_iterationsPerFrame = 20, d_iterations = 0,
                          d_currentState = last (stateStack s), d_steps = 10\<rparr>]\<rparr>, 1)"
proof -
  let ?T = "track_progress s"
  let ?cur = "last (stateStack s)"
  have k: "stateStack ?T = stateStack s" "frames ?T = frames s"
    by (simp_all add: track_progress_keep)
  have small: "\<not> noImprovementCount ?T > 2000"
    using track_progress_count [of s] assms(5) by simp
  have sim: "simulateUntilNextNote quiet_env ?cur ?T = (Awaiting 10, more_steps ?cur 10 ?T)"
    using quiet_chunk [of ?cur ?T 0] calm_track_progress [OF assms(4)]
    by (simp add: simulateUntilNextNote_def)
  have lp: "loop_pass quiet_env s = (Stopped ?cur 10, more_steps ?cur 10 ?T)"
    unfolding loop_pass_def Let_def using small assms(3) sim by (simp add: k)
  have "gen_loop quiet_env 20 0 s 0 =
      (Suspended \<lparr>d_iterationsPerFrame = 20, d_iterations = 0, d_currentState = ?cur,
                  d_steps = 10\<rparr>, more_steps ?cur 10 ?T, 1)"
    using assms(2) lp by (simp add: gen_loop.simps [of quiet_env 20 0 s 0])
  then show ?thesis
    using assms(1) by (simp add: update_def generateWithBacktracking_def run_driver_def)
qed

lemma run_tasks_Cons: "run_tasks E p (x # xs) = run_tasks E (run_task E p x) xs"
  by (simp add: run_tasks_def)

lemma run_tasks_append: "run_tasks E p (xs @ ys) = run_tasks E (run_tasks E p xs) ys"
  by (simp add: run_tasks_def)

lemma run_tasks_Nil: "run_tasks E p [] = p"
  by (simp add: run_tasks_def)

lemma run_timers:
  "calm (d_currentState d) s \<Longrightarrow> d_steps d mod 10 = 0 \<Longrightarrow> d_steps d + 10 * n \<le> 200
     \<Longrightarrow> run_tasks quiet_env \<lparr>p_scene = s, p_waiting = [d]\<rparr> (replicate n (Timer 0))
           = \<lparr>p_scene = more_steps (d_currentState d) (10 * n) s,
              p_waiting = [d\<lparr>d_steps := d_steps d + 10 * n\<rparr>]\<rparr>"
proof (induction n arbitrary: s d)
  case 0
  then show ?case by (simp add: run_tasks_Nil more_steps_zero)
next
  case (Suc n)
  let ?d = "d\<lparr>d_steps := d_steps d + 10\<rparr>"
  let ?s = "more_steps (d_currentState d) 10 s"
  have lt: "d_steps d < 200" using Suc.prems(3) by simp
  have one: "timer quiet_env 0 \<lparr>p_scene = s, p_waiting = [d]\<rparr>
      = \<lparr>p_scene = ?s, p_waiting = [?d]\<rparr>"
    using timer_chunk [OF Suc.prems(1,2) lt] by (simp add: timer_def)
  have "run_tasks quiet_env \<lparr>p_scene = ?s, p_waiting = [?d]\<rparr> (replicate n (Timer 0))
      = \<lparr>p_scene = more_steps (d_currentState ?d) (10 * n) ?s,
         p_waiting = [?d\<lparr>d_steps := d_steps ?d + 10 * n\<rparr>]\<rparr>"
  proof (rule Suc.IH)
    show "calm (d_currentState ?d) ?s" using Suc.prems(1) by (simp add: calm_more_steps)
    show "d_steps ?d mod 10 = 0" using Suc.prems(2) by simp
    show "d_steps ?d + 10 * n \<le> 200" using Suc.prems(3) by simp
  qed
  then show ?case
    by (simp add: run_tasks_Cons one more_steps_add add.assoc)
qed

lemma run_pairs:
  "calm r s \<Longrightarrow> d_currentState d1 = r \<Longrightarrow> d_currentState d2 = r
     \<Longrightarrow> d_steps d1 mod 10 = 0 \<Longrightarrow> d_steps d2 mod 10 = 0
     \<Longrightarrow> d_steps d1 + 10 * n \<le> 200 \<Longrightarrow> d_steps d2 + 10 * n \<le> 200
     \<Longrightarrow> run_tasks quiet_env \<lparr>p_scene = s, p_waiting = [d1, d2]\<rparr>
             (concat (replicate n [Timer 0, Timer 1]))
           = \<lparr>p_scene = more_steps r (20 * n) s,
              p_waiting = [d1\<lparr>d_steps := d_steps d1 + 10 * n\<rparr>,
                           d2\<lparr>d_steps := d_steps d2 + 10 * n\<rparr>]\<rparr>"
proof (induction n arbitrary: s d1 d2)
  case 0
  then show ?case by (simp add: run_tasks_Nil more_steps_zero)
next
  case (Suc n)
  let ?d1 = "d1\<lparr>d_steps := d_steps d1 + 10\<rparr>"
  let ?d2 = "d2\<lparr>d_steps := d_steps d2 + 10\<rparr>"
  let ?s1 = "more_steps r 10 s"
  let ?s2 = "more_steps r 20 s"
  have lt: "d_steps d1 < 200" "d_steps d2 < 200" using Suc.prems(6,7) by simp_all
  have c1: "calm (d_currentState d1) s" using Suc.prems(1,2) by simp
  have one: "timer quiet_env 0 \<lparr>p_scene = s, p_waiting = [d1, d2]\<rparr>
      = \<lparr>p_scene = ?s1, p_waiting = [?d1, d2]\<rparr>"
    using timer_chunk [OF c1 Suc.prems(4) lt(1)] Suc.prems(2) by (simp add: timer_def)
  have c2: "calm (d_currentState d2) ?s1" using Suc.prems(1,3) by (simp add: calm_more_steps)
  have two: "timer quiet_env (Suc 0) \<lparr>p_scene = ?s1, p_waiting = [?d1, d2]\<rparr>
      = \<lparr>p_scene = ?s2, p_waiting = [?d1, ?d2]\<rparr>"
    using timer_chunk [OF c2 Suc.prems(5) lt(2)] Suc.prems(3)
    by (simp add: timer_def more_steps_add)
  have "run_tasks quiet_env \<lparr>p_scene = ?s2, p_waiting = [?d1, ?d2]\<rparr>
          (concat (replicate n [Timer 0, Timer 1]))
      = \<lparr>p_scene = more_steps r (20 * n) ?s2,
         p_waiting = [?d1\<lparr>d_steps := d_steps ?d1 + 10 * n\<rparr>,
                      ?d2\<lparr>d_steps := d_steps ?d2 + 10 * n\<rparr>]\<rparr>"
  proof (rule Suc.IH)
    show "calm r ?s2" using Suc.prems(1) by (rule calm_more_steps)
    show "d_currentState ?d1 = r" "d_currentState ?d2 = r" using Suc.prems(2,3) by simp_all
    show "d_steps ?d1 mod 10 = 0" "d_steps ?d2 mod 10 = 0" using Suc.prems(4,5) by simp_all
    show "d_steps ?d1 + 10 * n \<le> 200" "d_steps ?d2 + 10 * n \<le> 200"
      using Suc.prems(6,7) by simp_all
  qed
  then show ?case
    by (simp add: run_tasks_Cons one two more_steps_add add.assoc)
qed

lemma restore_planks_only:
  "\<exists>w p. restore_planks s ps = s\<lparr>g_world := w, g_planks := p\<rparr>
         \<and> g_ball w = g_ball (g_world s)"
proof (induction ps arbitrary: s)
  case Nil
  have "restore_planks s [] = s\<lparr>g_world := g_world s, g_planks := g_planks s\<rparr>" by simp
  then show ?case by blast
next
  case (Cons plank rest)
  obtain w' plankBody where
    c: "g_createPlank (g_world s) (sp_position plank) (sp_angle plank) = (w', plankBody)"
    by (cases "g_createPlank (g_world s) (sp_position plank) (sp_angle plank)")
  have b: "g_ball w' = g_ball (g_world s)"
    using c by (auto simp add: g_createPlank_def Let_def)
  let ?s1 = "s\<lparr>g_world := w',
               g_planks := g_planks s @
                 [\<lparr>gp_body = plankBody,
                   gp_note = js_index (s_notes s) (int (currentNoteIndex s)),
                   gp_angle = sp_angle plank\<rparr>]\<rparr>"
  obtain w p where wp: "restore_planks ?s1 rest = ?s1\<lparr>g_world := w, g_planks := p\<rparr>"
    "g_ball w = g_ball (g_world ?s1)"
    using Cons.IH [of ?s1] by blast
  have "restore_planks s (plank # rest) = s\<lparr>g_world := w, g_planks := p\<rparr>"
    by (simp add: c wp(1))
  moreover have "g_ball w = g_ball (g_world s)" using wp(2) b by simp
  ultimately show ?case by blast
qed

lemma foldl_remove_ball: "g_ball (foldl removeRigidBody w bs) = g_ball w"
  by (induction bs arbitrary: w) (simp_all add: removeRigidBody_def)

lemma restoreWorldState_only:
  "\<exists>w p. restoreWorldState s snap = s\<lparr>g_world := w, g_planks := p\<rparr>
         \<and> rb_translation (g_ball w) = ballPosition snap"
proof -
  let ?w1 = "(g_world s)\<lparr>g_ball := (g_ball (g_world s))
                  \<lparr>rb_translation := ballPosition snap, rb_linvel := ballVelocity snap\<rparr>\<rparr>"
  let ?w2 = "foldl removeRigidBody ?w1 (map gp_body (g_planks s))"
  let ?s1 = "s\<lparr>g_world := ?w2, g_planks := []\<rparr>"
  obtain w p where wp: "restore_planks ?s1 (snap_planks snap) = ?s1\<lparr>g_world := w, g_planks := p\<rparr>"
    "g_ball w = g_ball (g_world ?s1)"
    using restore_planks_only [of ?s1 "snap_planks snap"] by blast
  have "restoreWorldState s snap = s\<lparr>g_world := w, g_planks := p\<rparr>"
    by (simp add: restoreWorldState_def Let_def wp(1))
  moreover have "rb_translation (g_ball w) = ballPosition snap"
    using wp(2) by (simp add: foldl_remove_ball)
  ultimately show ?thesis by blast
qed

lemma restore_pow_only:
  "\<exists>w p. ((\<lambda>x. restoreWorldState x snap) ^^ n) s = s\<lparr>g_world := w, g_planks := p\<rparr>
         \<and> (rb_translation (g_ball w) = rb_translation (g_ball (g_world s))
             \<or> rb_translation (g_ball w) = ballPosition snap)"
proof (induction n)
  case 0
  have "((\<lambda>x. restoreWorldState x snap) ^^ 0) s = s\<lparr>g_world := g_world s, g_planks := g_planks s\<rparr>"
    by simp
  then show ?case by blast
next
  case (Suc n)
  obtain w p where wp: "((\<lambda>x. restoreWorldState x snap) ^^ n) s = s\<lparr>g_world := w, g_planks := p\<rparr>"
    using Suc.IH by blast
  obtain w' p' where wp': "restoreWorldState (s\<lparr>g_world := w, g_planks := p\<rparr>) snap
      = (s\<lparr>g_world := w, g_planks := p\<rparr>)\<lparr>g_world := w', g_planks := p'\<rparr>"
    "rb_translation (g_ball w') = ballPosition snap"
    using restoreWorldState_only [of "s\<lparr>g_world := w, g_planks := p\<rparr>" snap] by blast
  have "((\<lambda>x. restoreWorldState x snap) ^^ Suc n) s = s\<lparr>g_world := w', g_planks := p'\<rparr>"
    by (simp add: wp wp'(1))
  then show ?case using wp'(2) by blast
qed

lemma rewind_only:
  "\<exists>w p. rewindCurrentState s
           = s\<lparr>stateStack := butlast (stateStack s), g_world := w, g_planks := p\<rparr>
         \<and> (rb_translation (g_ball w) = rb_translation (g_ball (g_world s))
             \<or> (stateStack s \<noteq> []
                 \<and> rb_translation (g_ball w)
                     = ballPosition (worldState (frames s (last (stateStack s))))))"
proof (cases "stateStack s = []")
  case True
  then have "rewindCurrentState s
      = s\<lparr>stateStack := butlast (stateStack s), g_world := g_world s, g_planks := g_planks s\<rparr>"
    by (simp add: rewindCurrentState_def)
  then show ?thesis by blast
next
  case False
  let ?snap = "worldState (frames s (last (stateStack s)))"
  let ?s1 = "s\<lparr>stateStack := butlast (stateStack s)\<rparr>"
  obtain w p where wp:
    "((\<lambda>x. restoreWorldState x ?snap) ^^ simulationSteps (frames s (last (stateStack s)))) ?s1
       = ?s1\<lparr>g_world := w, g_planks := p\<rparr>"
    "rb_translation (g_ball w) = rb_translation (g_ball (g_world ?s1))
       \<or> rb_translation (g_ball w) = ballPosition ?snap"
    using restore_pow_only [where snap = ?snap and s = ?s1] by blast
  have "rewindCurrentState s
      = s\<lparr>stateStack := butlast (stateStack s), g_world := w, g_planks := p\<rparr>"
    using False by (simp add: rewindCurrentState_def Let_def wp(1))
  then show ?thesis using wp(2) False by auto
qed

lemma settled_passes_zero: "settled s \<Longrightarrow> passes_needed s = 0 \<Longrightarrow> stateStack s = []"
  by (cases "stateStack s") (auto simp add: passes_needed_def settled_def frame_passes_def)

lemma untouched_refl: "untouched s s"
  by (simp add: untouched_def)

lemma untouched_trans: "untouched s s' \<Longrightarrow> untouched s' s'' \<Longrightarrow> untouched s s''"
  by (simp add: untouched_def)

lemma settled_pass:
  assumes reject: "\<forall>s a b. \<not> checkHistoricalCollisions E s a b"
    and ne: "stateStack s \<noteq> []"
    and ok: "settled s"
    and cnt: "noImprovementCount s < 2000"
  shows "\<exists>s'. loop_pass E s = (Completed False, s')
           \<and> passes_needed s' + 1 = passes_needed s
           \<and> settled s'
           \<and> noImprovementCount s' \<le> noImprovementCount s + 1
           \<and> untouched s s'"
proof -
  define s1 where "s1 = track_progress s"
  define cur where "cur = last (stateStack s)"
  have k1: "stateStack s1 = stateStack s" "frames s1 = frames s" "g_world s1 = g_world s"
    "clock_reads s1 = clock_reads s" "isGenerating s1 = isGenerating s"
    "s_notes s1 = s_notes s" "startTime s1 = startTime s"
    by (simp_all add: s1_def track_progress_def)
  have c1: "noImprovementCount s1 \<le> noImprovementCount s + 1"
    unfolding s1_def by (rule track_progress_count)
  then have small: "\<not> noImprovementCount s1 > 2000" using cnt by simp
  have dist: "distinct (stateStack s)" using ok by (simp add: settled_def)
  have mem: "cur \<in> set (stateStack s)" using ne by (simp add: cur_def)
  have rng: "0 \<le> rotationIndex (frames s cur)" "rotationIndex (frames s cur) < 11"
    "- 10 \<le> snd (ballPosition (worldState (frames s cur)))"
    "snd (ballPosition (worldState (frames s cur))) \<le> 10"
    using ok mem by (simp_all add: settled_def)
  have ball: "- 10 \<le> snd (rb_translation (g_ball (g_world s)))"
    "snd (rb_translation (g_ball (g_world s))) \<le> 10"
    using ok by (simp_all add: settled_def)
  have split: "passes_needed s
      = sum_list (map (\<lambda>r. frame_passes (frames s r)) (butlast (stateStack s)))
        + frame_passes (frames s cur)"
    using sum_butlast [OF ne, of "\<lambda>r. frame_passes (frames s r)"]
    by (simp add: passes_needed_def cur_def)
  have notin: "cur \<notin> set (butlast (stateStack s))"
    using dist ne by (metis cur_def append_butlast_last_id distinct_append
        disjoint_iff list.set_intros(1))
  have sub: "set (butlast (stateStack s)) \<subseteq> set (stateStack s)"
    by (auto dest: in_set_butlastD)
  have dist': "distinct (butlast (stateStack s))" using dist by (rule distinct_butlast)
  have nm: "rotationIndex (frames s cur) \<noteq> - 1" using rng(1) by simp
  have lp: "loop_pass E s =
        (case try_step E cur s1 of
           (s3, counted) \<Rightarrow> (Completed counted, s3))"
    using small nm unfolding loop_pass_def Let_def s1_def [symmetric]
    by (simp add: cur_def k1 cong: prod.case_cong sim_result.case_cong)
  let ?s2 = "set_frame cur (\<lambda>f. f\<lparr>rotationIndex := rotationIndex f + 1\<rparr>) s1"
  have rej: "tryPlacePlank E (frames s1 cur) s1 = (False, s1)"
    using tryPlacePlank_rejected [of E s1] reject by simp
  have ri2: "rotationIndex (frames ?s2 cur) = rotationIndex (frames s cur) + 1"
    by (simp add: set_frame_def k1)
  have fr2: "\<And>r. r \<noteq> cur \<Longrightarrow> frames ?s2 r = frames s r"
    by (simp add: set_frame_def k1)
  have un2: "untouched s ?s2"
    by (simp add: untouched_def set_frame_def k1)
  have n2: "noImprovementCount ?s2 = noImprovementCount s1" by (simp add: set_frame_def)
  show ?thesis
  proof (cases "rotationIndex (frames s cur) + 1 \<ge> 11")
    case True
    let ?s' = "rewindCurrentState ?s2"
    obtain w p where wp: "?s' = ?s2\<lparr>stateStack := butlast (stateStack ?s2), g_world := w,
        g_planks := p\<rparr>"
      "rb_translation (g_ball w) = rb_translation (g_ball (g_world ?s2))
         \<or> (stateStack ?s2 \<noteq> []
             \<and> rb_translation (g_ball w)
                 = ballPosition (worldState (frames ?s2 (last (stateStack ?s2)))))"
      using rewind_only [of ?s2] by blast
    have st2: "stateStack ?s2 = stateStack s" by (simp add: set_frame_def k1)
    have w2: "g_world ?s2 = g_world s" by (simp add: set_frame_def k1)
    have ws2: "worldState (frames ?s2 cur) = worldState (frames s cur)"
      by (simp add: set_frame_def k1)
    have lp': "loop_pass E s = (Completed False, ?s')"
      using True rej ri2 by (simp add: lp try_step_def Let_def length_PLANK_ROTATIONS)
    have st': "stateStack ?s' = butlast (stateStack s)" by (simp add: wp(1) st2)
    have fr': "frames ?s' = frames ?s2" by (simp add: wp(1))
    have same: "\<forall>r \<in> set (butlast (stateStack s)). frames ?s' r = frames s r"
    proof
      fix r assume "r \<in> set (butlast (stateStack s))"
      then have "r \<noteq> cur" using notin by auto
      then show "frames ?s' r = frames s r" using fr2 by (simp add: fr')
    qed
    have one: "frame_passes (frames s cur) = 1"
      using True rng by (simp add: frame_passes_def)
    have "passes_needed ?s'
        = sum_list (map (\<lambda>r. frame_passes (frames s r)) (butlast (stateStack s)))"
      unfolding passes_needed_def st' using same by (rule sum_frames_cong)
    then have pn: "passes_needed ?s' + 1 = passes_needed s" using split one by simp
    have bw: "- 10 \<le> snd (rb_translation (g_ball w)) \<and> snd (rb_translation (g_ball w)) \<le> 10"
      using wp(2) ball rng(3,4) by (auto simp add: w2 st2 cur_def [symmetric] ws2)
    have gw: "g_world ?s' = w" by (simp add: wp(1))
    have set': "settled ?s'"
      unfolding settled_def st' gw
      using dist' same ok sub bw by (auto simp add: settled_def)
    have un: "untouched s ?s'"
      using un2 by (simp add: untouched_def wp(1))
    have "noImprovementCount ?s' = noImprovementCount s1" by (simp add: wp(1) n2)
    then show ?thesis using lp' pn set' un c1 by auto
  next
    case more: False
    have lp': "loop_pass E s = (Completed False, ?s2)"
      using more rej ri2 by (simp add: lp try_step_def Let_def length_PLANK_ROTATIONS)
    have st': "stateStack ?s2 = stateStack s" by (simp add: set_frame_def k1)
    have same: "\<forall>r \<in> set (butlast (stateStack s)). frames ?s2 r = frames s r"
    proof
      fix r assume "r \<in> set (butlast (stateStack s))"
      then have "r \<noteq> cur" using notin by auto
      then show "frames ?s2 r = frames s r" using fr2 by simp
    qed
    have fp: "frame_passes (frames ?s2 cur) + 1 = frame_passes (frames s cur)"
      using more rng nm by (simp add: frame_passes_def set_frame_def k1)
    have "passes_needed ?s2
        = sum_list (map (\<lambda>r. frame_passes (frames ?s2 r)) (butlast (stateStack s)))
          + frame_passes (frames ?s2 cur)"
      using sum_butlast [OF ne, of "\<lambda>r. frame_passes (frames ?s2 r)"]
      by (simp add: passes_needed_def set_frame_stack k1 cur_def)
    also have "sum_list (map (\<lambda>r. frame_passes (frames ?s2 r)) (butlast (stateStack s)))
        = sum_list (map (\<lambda>r. frame_passes (frames s r)) (butlast (stateStack s)))"
      using same by (rule sum_frames_cong)
    finally have pn: "passes_needed ?s2 + 1 = passes_needed s"
      using split fp by simp
    have okall: "\<forall>r \<in> set (stateStack s).
            0 \<le> rotationIndex (frames ?s2 r) \<and> rotationIndex (frames ?s2 r) < 11
            \<and> - 10 \<le> snd (ballPosition (worldState (frames ?s2 r)))
            \<and> snd (ballPosition (worldState (frames ?s2 r))) \<le> 10"
    proof
      fix r assume r: "r \<in> set (stateStack s)"
      show "0 \<le> rotationIndex (frames ?s2 r) \<and> rotationIndex (frames ?s2 r) < 11
            \<and> - 10 \<le> snd (ballPosition (worldState (frames ?s2 r)))
            \<and> snd (ballPosition (worldState (frames ?s2 r))) \<le> 10"
      proof (cases "r = cur")
        case True
        then show ?thesis using rng more by (simp add: set_frame_def k1)
      next
        case False
        then show ?thesis using fr2 [of r] ok r by (simp add: settled_def)
      qed
    qed
    have set': "settled ?s2"
      unfolding settled_def st' using okall dist ball by (simp add: set_frame_def k1)
    show ?thesis using lp' pn set' un2 n2 c1 by auto
  qed
qed

lemma settled_run:
  assumes reject: "\<forall>s a b. \<not> checkHistoricalCollisions E s a b"
  shows "passes_needed s = k \<Longrightarrow> settled s
     \<Longrightarrow> noImprovementCount s + k \<le> 2000 \<Longrightarrow> iterations < iterationsPerFrame
     \<Longrightarrow> \<exists>s'. gen_loop E iterationsPerFrame iterations s passes = (Ended, s', passes + k)
            \<and> stateStack s' = [] \<and> settled s' \<and> untouched s s'"
proof (induction k arbitrary: s passes)
  case 0
  then have "stateStack s = []" using settled_passes_zero by blast
  then show ?case
    using "0.prems"(2)
    by (simp add: gen_loop.simps [of E iterationsPerFrame iterations s passes] untouched_refl)
next
  case (Suc k)
  have ne: "stateStack s \<noteq> []" using Suc.prems(1) by (auto simp add: passes_needed_def)
  have cnt: "noImprovementCount s < 2000" using Suc.prems(3) by simp
  obtain s1 where s1: "loop_pass E s = (Completed False, s1)"
    "passes_needed s1 + 1 = passes_needed s" "settled s1"
    "noImprovementCount s1 \<le> noImprovementCount s + 1" "untouched s s1"
    using settled_pass [OF reject ne Suc.prems(2) cnt] by blast
  have "\<exists>s'. gen_loop E iterationsPerFrame iterations s1 (passes + 1)
            = (Ended, s', passes + 1 + k) \<and> stateStack s' = [] \<and> settled s'
            \<and> untouched s1 s'"
  proof (rule Suc.IH)
    show "passes_needed s1 = k" using s1(2) Suc.prems(1) by simp
    show "settled s1" by (rule s1(3))
    show "noImprovementCount s1 + k \<le> 2000" using s1(4) Suc.prems(3) by simp
    show "iterations < iterationsPerFrame" by (rule Suc.prems(4))
  qed
  then obtain s' where s': "gen_loop E iterationsPerFrame iterations s1 (passes + 1)
            = (Ended, s', passes + 1 + k)" "stateStack s' = []" "settled s'" "untouched s1 s'"
    by blast
  have "gen_loop E iterationsPerFrame iterations s passes
      = gen_loop E iterationsPerFrame iterations s1 (passes + 1)"
    using ne Suc.prems(4) s1(1)
    by (simp add: gen_loop.simps [of E iterationsPerFrame iterations s passes])
  then show ?case using s' untouched_trans [OF s1(5) s'(4)] by auto
qed

lemma sim_run_cap: "sim_run E 200 r s = (Returned True, s)"
  by (subst sim_run.simps) (simp add: MAX_SIMULATION_STEPS_def)

text \<open>
  A driver whose simulation has made its 200 steps goes on when its last timer fires.
  When every candidate is rejected, the frame it holds gets a permutation and the
  rotation index 1, and the loop goes on from its head.
\<close>

lemma resume_at_cap:
  assumes reject: "\<forall>s a b. \<not> checkHistoricalCollisions E s a b"
    and cap: "d_steps d = 200"
  shows "\<exists>perm k. resume_driver E d s =
           run_driver E (d_iterationsPerFrame d) (d_iterations d)
             (set_frame (d_currentState d)
                (\<lambda>f. f\<lparr>rotationPermutation := perm, rotationIndex := 1\<rparr>)
                (s\<lparr>random_reads := k\<rparr>)) 0"
proof -
  let ?r = "d_currentState d"
  obtain perm s1 where gp: "getRandomPermutation E (length PLANK_ROTATIONS) s = (perm, s1)"
    by (cases "getRandomPermutation E (length PLANK_ROTATIONS) s")
  then obtain k where s1: "s1 = s\<lparr>random_reads := k\<rparr>"
    by (auto simp add: getRandomPermutation_def split: prod.splits)
  let ?s2 = "set_frame ?r (\<lambda>f. f\<lparr>rotationPermutation := perm, rotationIndex := 0\<rparr>) s1"
  let ?s3 = "set_frame ?r (\<lambda>f. f\<lparr>rotationIndex := rotationIndex f + 1\<rparr>) ?s2"
  have rej: "tryPlacePlank E (frames ?s2 ?r) ?s2 = (False, ?s2)"
    using tryPlacePlank_rejected [of E ?s2] reject by simp
  have ri: "rotationIndex (frames ?s3 ?r) = 1" by (simp add: set_frame_def)
  have ts: "try_step E ?r ?s2 = (?s3, False)"
    using rej ri by (simp add: try_step_def Let_def length_PLANK_ROTATIONS)
  have eq: "?s3 = set_frame ?r (\<lambda>f. f\<lparr>rotationPermutation := perm, rotationIndex := 1\<rparr>)
                    (s\<lparr>random_reads := k\<rparr>)"
    by (simp add: set_frame_def s1)
  have "after_sim E True ?r s = (?s3, False)"
    using gp ts by (simp add: after_sim_def)
  then have "resume_driver E d s =
      run_driver E (d_iterationsPerFrame d) (d_iterations d) ?s3 0"
    by (simp add: resume_driver_def cap sim_run_cap)
  then show ?thesis unfolding eq by blast
qed

lemma fresh_scene_facts:
  "isGenerating (startGeneration quiet_env idle_scene)"
  "stateStack (startGeneration quiet_env idle_scene) = [0]"
  "rotationIndex (frames (startGeneration quiet_env idle_scene) 0) = - 1"
  "simulationSteps (frames (startGeneration quiet_env idle_scene) 0) = 0"
  "clock_reads (startGeneration quiet_env idle_scene) = 1"
  "noImprovementCount (startGeneration quiet_env idle_scene) = 0"
  "calm 0 (startGeneration quiet_env idle_scene)"
  "g_world (startGeneration quiet_env idle_scene) = g_world idle_scene"
  "noteIndex (frames (startGeneration quiet_env idle_scene) 0) = 0"
  "ballPosition (worldState (frames (startGeneration quiet_env idle_scene) 0)) = (0, - 4)"
  "s_notes (startGeneration quiet_env idle_scene) = [\<lparr>note_time = 2000\<rparr>, \<lparr>note_time = 2500\<rparr>]"
  "startTime (startGeneration quiet_env idle_scene) = 0"
  "rb_translation (g_ball (g_world idle_scene)) = (0, - 4)"
  by (simp_all add: startGeneration_def saveWorldState_def idle_scene_def calm_def
      quiet_env_def)

lemma more_steps_facts:
  "isGenerating (more_steps r k s) = isGenerating s"
  "stateStack (more_steps r k s) = stateStack s"
  "rotationIndex (frames (more_steps r k s) q) = rotationIndex (frames s q)"
  "simulationSteps (frames (more_steps r k s) r) = simulationSteps (frames s r) + k"
  "clock_reads (more_steps r k s) = clock_reads s + k"
  "noImprovementCount (more_steps r k s) = noImprovementCount s"
  "g_world (more_steps r k s) = g_world s"
  "noteIndex (frames (more_steps r k s) q) = noteIndex (frames s q)"
  "worldState (frames (more_steps r k s) q) = worldState (frames s q)"
  "s_notes (more_steps r k s) = s_notes s"
  "startTime (more_steps r k s) = startTime s"
  by (simp_all add: more_steps_def)

lemma track_progress_facts:
  "isGenerating (track_progress s) = isGenerating s"
  "stateStack (track_progress s) = stateStack s"
  "frames (track_progress s) = frames s"
  "clock_reads (track_progress s) = clock_reads s"
  "g_world (track_progress s) = g_world s"
  "s_notes (track_progress s) = s_notes s"
  "startTime (track_progress s) = startTime s"
  by (simp_all add: track_progress_def)

text \<open>
  C5 fails on the code as the host runs it. A call of \<open>simulateUntilNextNote\<close> counts
  its own steps and stops at 200 of them, but \<open>update\<close> starts a driver at every
  frame without awaiting it, and a driver that simulates gives control back to the host
  every ten steps. In a generation just started, with nothing in the way of the ball,
  the first frame starts a driver that simulates the root frame; while it waits for its
  timers the next frame of the host starts a second driver, which finds the same frame
  on top of the stack, still to be simulated, and simulates it as well. After the
  tasks \<open>two_frames\<close> the first driver has made its 200 steps and waits for its last
  timer, the second has made 150, and the root frame, which is still on top of the
  stack and still in its forward simulation (rotation index -1), has had 350 physics
  steps. When the timers that are left have fired (\<open>to_the_end\<close>) both drivers have
  ended, each with a handoff to regular gameplay: 400 physics steps have been made for
  the root frame, and the clock has been read 403 times (once by \<open>startGeneration\<close>,
  once for each step, once by each handoff).
\<close>

theorem steps_exceed_cap:
  "p_waiting (run_tasks quiet_env fresh_program two_frames)
     = [\<lparr>d_iterationsPerFrame = 20, d_iterations = 0, d_currentState = 0, d_steps = 200\<rparr>,
        \<lparr>d_iterationsPerFrame = 20, d_iterations = 0, d_currentState = 0, d_steps = 150\<rparr>]
   \<and> stateStack (p_scene (run_tasks quiet_env fresh_program two_frames)) = [0]
   \<and> rotationIndex (frames (p_scene (run_tasks quiet_env fresh_program two_frames)) 0) = - 1
   \<and> simulationSteps (frames (p_scene (run_tasks quiet_env fresh_program two_frames)) 0) = 350
   \<and> clock_reads (p_scene (run_tasks quiet_env fresh_program two_frames)) = 351
   \<and> stateStack (p_scene fresh_program) = [0]
   \<and> simulationSteps (frames (p_scene fresh_program) 0) = 0
   \<and> MAX_SIMULATION_STEPS = 200
   \<and> p_waiting (run_tasks quiet_env fresh_program to_the_end) = []
   \<and> stateStack (p_scene (run_tasks quiet_env fresh_program to_the_end)) = []
   \<and> \<not> isGenerating (p_scene (run_tasks quiet_env fresh_program to_the_end))
   \<and> simulationSteps (frames (p_scene (run_tasks quiet_env fresh_program to_the_end)) 0) = 400
   \<and> clock_reads (p_scene (run_tasks quiet_env fresh_program to_the_end)) = 403"
proof -
  let ?S0 = "startGeneration quiet_env idle_scene"
  let ?d = "\<lambda>k. \<lparr>d_iterationsPerFrame = 20, d_iterations = 0, d_currentState = 0,
                  d_steps = k\<rparr>"
  let ?S1 = "more_steps 0 10 (track_progress ?S0)"
  have f1: "run_task quiet_env fresh_program Frame = \<lparr>p_scene = ?S1, p_waiting = [?d 10]\<rparr>"
    using frame_chunk [of ?S0 "[]"] by (simp add: fresh_program_def fresh_scene_facts)
  let ?S2 = "more_steps 0 50 ?S1"
  have c1: "calm 0 ?S1"
    by (intro calm_more_steps calm_track_progress fresh_scene_facts)
  have t1: "run_tasks quiet_env \<lparr>p_scene = ?S1, p_waiting = [?d 10]\<rparr> (replicate 5 (Timer 0))
      = \<lparr>p_scene = ?S2, p_waiting = [?d 60]\<rparr>"
    using run_timers [of "?d 10" ?S1 5] c1 by simp
  let ?S3 = "more_steps 0 10 (track_progress ?S2)"
  have c2: "calm 0 ?S2" using c1 by (rule calm_more_steps)
  have n2: "noImprovementCount ?S2 < 2000"
    using track_progress_count [of ?S0] by (simp add: more_steps_facts fresh_scene_facts)
  have st2: "stateStack ?S2 = [0]" "isGenerating ?S2"
    "rotationIndex (frames ?S2 0) = - 1"
    by (simp_all add: more_steps_facts track_progress_facts fresh_scene_facts)
  have f2: "run_task quiet_env \<lparr>p_scene = ?S2, p_waiting = [?d 60]\<rparr> Frame
      = \<lparr>p_scene = ?S3, p_waiting = [?d 60, ?d 10]\<rparr>"
    using frame_chunk [of ?S2 "[?d 60]"] c2 n2 st2 by simp
  let ?S4 = "more_steps 0 280 ?S3"
  have c3: "calm 0 ?S3"
    by (intro calm_more_steps calm_track_progress c2)
  have t2: "run_tasks quiet_env \<lparr>p_scene = ?S3, p_waiting = [?d 60, ?d 10]\<rparr>
        (concat (replicate 14 [Timer 0, Timer 1]))
      = \<lparr>p_scene = ?S4, p_waiting = [?d 200, ?d 150]\<rparr>"
    using run_pairs [of 0 ?S3 "?d 60" "?d 10" 14] c3 by simp
  have run: "run_tasks quiet_env fresh_program two_frames
      = \<lparr>p_scene = ?S4, p_waiting = [?d 200, ?d 150]\<rparr>"
    unfolding two_frames_def run_tasks_Cons run_tasks_append f1 t1 f2 t2 ..
  have reject: "\<forall>s a b. \<not> checkHistoricalCollisions quiet_env s a b"
    by (simp add: quiet_env_def)
  have n4: "noImprovementCount ?S4 \<le> 2"
    using track_progress_count [of ?S0] track_progress_count [of ?S2]
    by (simp add: more_steps_facts fresh_scene_facts)
  have S4: "stateStack ?S4 = [0]" "clock_reads ?S4 = 351"
    "simulationSteps (frames ?S4 0) = 350" "noteIndex (frames ?S4 0) = 0"
    "ballPosition (worldState (frames ?S4 0)) = (0, - 4)"
    "s_notes ?S4 = [\<lparr>note_time = 2000\<rparr>, \<lparr>note_time = 2500\<rparr>]" "startTime ?S4 = 0"
    "rb_translation (g_ball (g_world ?S4)) = (0, - 4)"
    "rotationIndex (frames ?S4 0) = - 1"
    by (simp_all add: more_steps_facts track_progress_facts fresh_scene_facts)
  have first: "p_waiting (run_tasks quiet_env fresh_program two_frames) = [?d 200, ?d 150]
      \<and> stateStack (p_scene (run_tasks quiet_env fresh_program two_frames)) = [0]
      \<and> rotationIndex (frames (p_scene (run_tasks quiet_env fresh_program two_frames)) 0) = - 1
      \<and> simulationSteps (frames (p_scene (run_tasks quiet_env fresh_program two_frames)) 0)
          = 350
      \<and> clock_reads (p_scene (run_tasks quiet_env fresh_program two_frames)) = 351
      \<and> stateStack (p_scene fresh_program) = [0]
      \<and> simulationSteps (frames (p_scene fresh_program) 0) = 0
      \<and> MAX_SIMULATION_STEPS = 200"
    unfolding run
    by (simp add: S4 fresh_scene_facts fresh_program_def MAX_SIMULATION_STEPS_def)
  obtain perm k where r1: "resume_driver quiet_env (?d 200) ?S4 =
      run_driver quiet_env 20 0
        (set_frame 0 (\<lambda>f. f\<lparr>rotationPermutation := perm, rotationIndex := 1\<rparr>)
           (?S4\<lparr>random_reads := k\<rparr>)) 0"
    using resume_at_cap [OF reject, of "?d 200" ?S4] by auto
  define s3 where "s3 = set_frame 0 (\<lambda>f. f\<lparr>rotationPermutation := perm, rotationIndex := 1\<rparr>)
           (?S4\<lparr>random_reads := k\<rparr>)"
  have s3: "stateStack s3 = [0]" "clock_reads s3 = 351"
    "simulationSteps (frames s3 0) = 350" "noteIndex (frames s3 0) = 0"
    "ballPosition (worldState (frames s3 0)) = (0, - 4)"
    "s_notes s3 = [\<lparr>note_time = 2000\<rparr>, \<lparr>note_time = 2500\<rparr>]" "startTime s3 = 0"
    "rb_translation (g_ball (g_world s3)) = (0, - 4)"
    "rotationIndex (frames s3 0) = 1" "noImprovementCount s3 \<le> 2"
    using S4 n4 by (simp_all add: s3_def set_frame_def)
  have set3: "settled s3" by (simp add: settled_def s3)
  have pn3: "passes_needed s3 = 10" by (simp add: passes_needed_def frame_passes_def s3)
  have "\<exists>s'. gen_loop quiet_env 20 0 s3 0 = (Ended, s', 0 + 10)
            \<and> stateStack s' = [] \<and> settled s' \<and> untouched s3 s'"
  proof (rule settled_run [OF reject])
    show "passes_needed s3 = 10" by (rule pn3)
    show "settled s3" by (rule set3)
    show "noImprovementCount s3 + 10 \<le> 2000" using s3(10) by simp
    show "(0::nat) < 20" by simp
  qed
  then obtain s' where s': "gen_loop quiet_env 20 0 s3 0 = (Ended, s', 10)"
    "stateStack s' = []" "settled s'" "untouched s3 s'"
    by auto
  define F1 where "F1 = startRegularGameplay quiet_env (s'\<lparr>isGenerating := False\<rparr>)"
  have t3: "timer quiet_env 0 \<lparr>p_scene = ?S4, p_waiting = [?d 200, ?d 150]\<rparr>
      = \<lparr>p_scene = F1, p_waiting = [?d 150]\<rparr>"
    using s'(1,2)
    by (simp add: timer_def r1 s3_def [symmetric] run_driver_def after_loop_def F1_def)
  have F1: "stateStack F1 = []" "clock_reads F1 = 352" "\<not> isGenerating F1"
    "simulationSteps (frames F1 0) = 350" "noteIndex (frames F1 0) = 0"
    "s_notes F1 = [\<lparr>note_time = 2000\<rparr>, \<lparr>note_time = 2500\<rparr>]" "startTime F1 = 0"
    using s'(2,4) s3
    by (simp_all add: F1_def startRegularGameplay_def untouched_def quiet_env_simps)
  have bF1: "- 10 \<le> snd (rb_translation (g_ball (g_world F1)))"
    "snd (rb_translation (g_ball (g_world F1))) \<le> 10"
    using s'(3) by (simp_all add: F1_def startRegularGameplay_def settled_def)
  have cF1: "calm 0 F1" using bF1 by (simp add: calm_def F1)
  let ?S5 = "more_steps 0 50 F1"
  have t4: "run_tasks quiet_env \<lparr>p_scene = F1, p_waiting = [?d 150]\<rparr> (replicate 5 (Timer 0))
      = \<lparr>p_scene = ?S5, p_waiting = [?d 200]\<rparr>"
    using run_timers [of "?d 150" F1 5] cF1 by simp
  obtain perm' k' where r2: "resume_driver quiet_env (?d 200) ?S5 =
      run_driver quiet_env 20 0
        (set_frame 0 (\<lambda>f. f\<lparr>rotationPermutation := perm', rotationIndex := 1\<rparr>)
           (?S5\<lparr>random_reads := k'\<rparr>)) 0"
    using resume_at_cap [OF reject, of "?d 200" ?S5] by auto
  define s6 where "s6 = set_frame 0 (\<lambda>f. f\<lparr>rotationPermutation := perm', rotationIndex := 1\<rparr>)
           (?S5\<lparr>random_reads := k'\<rparr>)"
  have s6: "stateStack s6 = []" "clock_reads s6 = 402" "simulationSteps (frames s6 0) = 400"
    using F1 by (simp_all add: s6_def set_frame_def more_steps_facts)
  define F2 where "F2 = startRegularGameplay quiet_env (s6\<lparr>isGenerating := False\<rparr>)"
  have g6: "gen_loop quiet_env 20 0 s6 0 = (Ended, s6, 0)"
    using s6(1) by (simp add: gen_loop.simps [of quiet_env 20 0 s6 0])
  have t5: "timer quiet_env 0 \<lparr>p_scene = ?S5, p_waiting = [?d 200]\<rparr>
      = \<lparr>p_scene = F2, p_waiting = []\<rparr>"
    using g6 s6(1)
    by (simp add: timer_def r2 s6_def [symmetric] run_driver_def after_loop_def F2_def)
  have F2: "stateStack F2 = []" "clock_reads F2 = 403" "\<not> isGenerating F2"
    "simulationSteps (frames F2 0) = 400"
    using s6 by (simp_all add: F2_def startRegularGameplay_def)
  have run2: "run_tasks quiet_env fresh_program to_the_end = \<lparr>p_scene = F2, p_waiting = []\<rparr>"
    unfolding to_the_end_def run_tasks_append run run_tasks_Cons run_task.simps t3 t4 t5
      run_tasks_Nil ..
  have second: "p_waiting (run_tasks quiet_env fresh_program to_the_end) = []
      \<and> stateStack (p_scene (run_tasks quiet_env fresh_program to_the_end)) = []
      \<and> \<not> isGenerating (p_scene (run_tasks quiet_env fresh_program to_the_end))
      \<and> simulationSteps (frames (p_scene (run_tasks quiet_env fresh_program to_the_end)) 0)
          = 400
      \<and> clock_reads (p_scene (run_tasks quiet_env fresh_program to_the_end)) = 403"
    unfolding run2 by (simp add: F2)
  show ?thesis using first second by simp
qed

section \<open>The pose of a candidate plank\<close>

lemma Vector2_rotate_quarter: "Vector2_rotate v (pi / 2) = (- snd v, fst v)"
  by (simp add: Vector2_rotate_def)

lemma Vector2_rotate_minus_quarter: "Vector2_rotate v (- (pi / 2)) = (snd v, - fst v)"
  by (simp add: Vector2_rotate_def)

lemma plank_pose_eq:
  "plank_pose pos dir angle =
     (Vector2_rotate dir angle,
      Vector2_add pos (Vector2_scale (Vector2_rotate dir angle) (0.3 + 2 * 0.15 + 0.001)),
      Vector2_add (Vector2_add pos (Vector2_scale (Vector2_rotate dir angle) (0.3 + 2 * 0.15 + 0.001)))
        (Vector2_scale (Vector2_rotate (Vector2_rotate dir angle) (pi / 2)) 0.6),
      Vector2_add (Vector2_add pos (Vector2_scale (Vector2_rotate dir angle) (0.3 + 2 * 0.15 + 0.001)))
        (Vector2_scale (Vector2_rotate (Vector2_rotate dir angle) (- (pi / 2))) 0.6))"
  by (simp add: plank_pose_def Let_def DegToRad_90 Vector2_rotate_quarter
      Vector2_rotate_minus_quarter Vector2_add_def Vector2_subtract_def Vector2_multiply_def
      Vector2_scale_def)

lemma wouldOverlapWithHistory_bodies:
  "bodies (fst (wouldOverlapWithHistory isect w plankA plankB plankCenter angle)) =
     bodies w @ [(Fixed, \<lparr>rb_handle = length (bodies w), rb_translation = plankCenter,
                           rb_linvel = (0, 0), rb_rotation = angle\<rparr>)]"
  by (simp add: wouldOverlapWithHistory_def createRigidBody_def createCollider_def
      update_collider_def Let_def)

lemma place_loop_bodies:
  "\<exists>more. bodies (fst (place_loop isect pos passAngles angles dir w planks)) = bodies w @ more"
proof (induction angles arbitrary: dir w)
  case Nil
  then show ?case by simp
next
  case (Cons angle angles)
  show ?case
  proof (cases "angle \<in> set passAngles")
    case True
    then show ?thesis using Cons.IH [of dir w] by simp
  next
    case False
    obtain plankDir plankCenter plankA plankB where
      pose: "plank_pose pos dir angle = (plankDir, plankCenter, plankA, plankB)"
      by (cases "plank_pose pos dir angle") auto
    obtain w' r where chk: "wouldOverlapWithHistory isect w plankA plankB plankCenter angle = (w', r)"
      by (cases "wouldOverlapWithHistory isect w plankA plankB plankCenter angle")
    have b': "bodies w' = bodies w @ [(Fixed, \<lparr>rb_handle = length (bodies w),
        rb_translation = plankCenter, rb_linvel = (0, 0), rb_rotation = angle\<rparr>)]"
      using wouldOverlapWithHistory_bodies [of isect w plankA plankB plankCenter angle] chk
      by simp
    show ?thesis
    proof (cases r)
      case None
      obtain more where "bodies (fst (place_loop isect pos passAngles angles plankDir w' planks))
          = bodies w' @ more"
        using Cons.IH [of plankDir w'] by blast
      then show ?thesis using False pose chk None b' by simp
    next
      case (Some newPlank)
      then show ?thesis using False pose chk b' by simp
    qed
  qed
qed

lemma place_loop_first_body:
  assumes "angle \<notin> set passAngles"
  shows "bodies (fst (place_loop isect pos passAngles (angle # angles) dir w planks))
           ! length (bodies w)
         = (Fixed, \<lparr>rb_handle = length (bodies w),
              rb_translation = Vector2_add pos
                (Vector2_scale (Vector2_rotate dir angle) (0.3 + 2 * 0.15 + 0.001)),
              rb_linvel = (0, 0), rb_rotation = angle\<rparr>)"
proof -
  obtain plankDir plankCenter plankA plankB where
    pose: "plank_pose pos dir angle = (plankDir, plankCenter, plankA, plankB)"
    by (cases "plank_pose pos dir angle") auto
  then have c: "plankCenter = Vector2_add pos
                (Vector2_scale (Vector2_rotate dir angle) (0.3 + 2 * 0.15 + 0.001))"
    by (auto simp add: plank_pose_eq)
  obtain w' r where chk: "wouldOverlapWithHistory isect w plankA plankB plankCenter angle = (w', r)"
    by (cases "wouldOverlapWithHistory isect w plankA plankB plankCenter angle")
  have b': "bodies w' = bodies w @ [(Fixed, \<lparr>rb_handle = length (bodies w),
      rb_translation = plankCenter, rb_linvel = (0, 0), rb_rotation = angle\<rparr>)]"
    using wouldOverlapWithHistory_bodies [of isect w plankA plankB plankCenter angle] chk
    by simp
  show ?thesis
  proof (cases r)
    case None
    obtain more where "bodies (fst (place_loop isect pos passAngles angles plankDir w' planks))
        = bodies w' @ more"
      using place_loop_bodies by blast
    then show ?thesis using assms pose chk None b' c by (simp add: nth_append)
  next
    case (Some newPlank)
    then show ?thesis using assms pose chk b' c by (simp add: nth_append)
  qed
qed

lemma sin_015: "sin (0.15 :: real) \<noteq> 0"
proof -
  have "(0.15 :: real) < pi" using pi_ge_two by simp
  then have "0 < sin (0.15 :: real)" by (intro sin_gt_zero) simp_all
  then show ?thesis by simp
qed

lemma second_candidate_bodies:
  "bodies (fst (placePlankForNote_loop second_only
     [0.15, 0, - 0.15, 0.6, - 0.6, 0.3, - 0.3, 0.9, - 0.9, 1.1, - 1.1]
     (0, - 4) (1, 0) [] example_world []))
   = bodies example_world @
     [(Fixed, \<lparr>rb_handle = 2,
         rb_translation = Vector2_add (0, - 4)
           (Vector2_scale (Vector2_rotate (1, 0) 0.15) (0.3 + 2 * 0.15 + 0.001)),
         rb_linvel = (0, 0), rb_rotation = 0.15\<rparr>),
      (Fixed, \<lparr>rb_handle = 3,
         rb_translation = Vector2_add (0, - 4)
           (Vector2_scale (Vector2_rotate (Vector2_rotate (1, 0) 0.15) 0) (0.3 + 2 * 0.15 + 0.001)),
         rb_linvel = (0, 0), rb_rotation = 0\<rparr>)]"
proof -
  let ?c1 = "Vector2_add (0, - 4)
      (Vector2_scale (Vector2_rotate (1, 0) 0.15) (0.3 + 2 * 0.15 + 0.001))"
  let ?w1 = "fst (wouldOverlapWithHistory second_only example_world
      (fst (snd (snd (plank_pose (0, - 4) (1, 0) 0.15))))
      (snd (snd (snd (plank_pose (0, - 4) (1, 0) 0.15)))) ?c1 0.15)"
  have len0: "length (colliders example_world) = 2" "length (bodies example_world) = 2"
    by (simp_all add: example_world_def)
  have r1: "wouldOverlapWithHistory second_only example_world A B ?c1 0.15 =
      (example_world\<lparr>bodies := bodies example_world @ [(Fixed, \<lparr>rb_handle = 2,
            rb_translation = ?c1, rb_linvel = (0, 0), rb_rotation = 0.15\<rparr>)],
         colliders := colliders example_world @
           [\<lparr>co_handle = 2, co_parent = 2,
             co_shape = CuboidShape 0.6 0.15, co_sensor = True, co_enabled = False,
             co_activeCollisionTypes = FIXED_FIXED, co_restitution = 0\<rparr>]\<rparr>, None)" for A B
    by (simp add: wouldOverlapWithHistory_eq [OF example_world_ok] second_only_def len0
        ball_collider_def)
  let ?w1 = "example_world\<lparr>bodies := bodies example_world @ [(Fixed, \<lparr>rb_handle = 2,
            rb_translation = ?c1, rb_linvel = (0, 0), rb_rotation = 0.15\<rparr>)],
         colliders := colliders example_world @
           [\<lparr>co_handle = 2, co_parent = 2,
             co_shape = CuboidShape 0.6 0.15, co_sensor = True, co_enabled = False,
             co_activeCollisionTypes = FIXED_FIXED, co_restitution = 0\<rparr>]\<rparr>"
  have ok1: "world_ok ?w1"
    by (simp add: world_ok_def example_world_def ball_collider_def trail_collider_def)
  have len1: "length (colliders ?w1) = 3" "length (bodies ?w1) = 3"
    by (simp_all add: example_world_def)
  let ?c2 = "Vector2_add (0, - 4)
      (Vector2_scale (Vector2_rotate (Vector2_rotate (1, 0) 0.15) 0) (0.3 + 2 * 0.15 + 0.001))"
  have r2: "wouldOverlapWithHistory second_only ?w1 A B ?c2 0 =
      (?w1\<lparr>bodies := bodies ?w1 @ [(Fixed, \<lparr>rb_handle = 3,
            rb_translation = ?c2, rb_linvel = (0, 0), rb_rotation = 0\<rparr>)],
         colliders := colliders ?w1 @
           [\<lparr>co_handle = 3, co_parent = 3,
             co_shape = CuboidShape 0.6 0.15, co_sensor = False, co_enabled = True,
             co_activeCollisionTypes = DYNAMIC_FIXED, co_restitution = 1.1\<rparr>]\<rparr>,
       Some \<lparr>rb_handle = 3, rb_translation = ?c2, rb_linvel = (0, 0), rb_rotation = 0\<rparr>)" for A B
    unfolding wouldOverlapWithHistory_eq [OF ok1] len1 by (simp add: second_only_def)
  have p1: "plank_pose (0, - 4) (1, 0) 0.15 = (Vector2_rotate (1, 0) 0.15, ?c1,
      fst (snd (snd (plank_pose (0, - 4) (1, 0) 0.15))),
      snd (snd (snd (plank_pose (0, - 4) (1, 0) 0.15))))"
    by (simp add: plank_pose_eq)
  have p2: "plank_pose (0, - 4) (Vector2_rotate (1, 0) 0.15) 0 =
     (Vector2_rotate (Vector2_rotate (1, 0) 0.15) 0, ?c2,
      fst (snd (snd (plank_pose (0, - 4) (Vector2_rotate (1, 0) 0.15) 0))),
      snd (snd (snd (plank_pose (0, - 4) (Vector2_rotate (1, 0) 0.15) 0))))"
    by (simp add: plank_pose_eq)
  have step1: "place_loop second_only (0, - 4) []
       [0.15, 0, - 0.15, 0.6, - 0.6, 0.3, - 0.3, 0.9, - 0.9, 1.1, - 1.1] (1, 0) example_world []
     = place_loop second_only (0, - 4) []
       [0, - 0.15, 0.6, - 0.6, 0.3, - 0.3, 0.9, - 0.9, 1.1, - 1.1]
       (Vector2_rotate (1, 0) 0.15) ?w1 []"
    by (subst place_loop.simps, subst p1) (simp only: r1 prod.case option.case set_simps
        empty_iff if_False)
  have step2: "bodies (fst (place_loop second_only (0, - 4) []
       [0, - 0.15, 0.6, - 0.6, 0.3, - 0.3, 0.9, - 0.9, 1.1, - 1.1]
       (Vector2_rotate (1, 0) 0.15) ?w1 []))
     = bodies ?w1 @ [(Fixed, \<lparr>rb_handle = 3,
            rb_translation = ?c2, rb_linvel = (0, 0), rb_rotation = 0\<rparr>)]"
    apply (subst place_loop.simps, subst p2)
    apply (simp only: r2 prod.case option.case set_simps empty_iff if_False fst_conv)
    apply simp
    done
  show ?thesis
    unfolding placePlankForNote_loop_def normalize_unit step1 step2 by simp
qed

lemma first_candidate_bodies:
  "bodies (fst (placePlankForNote_loop world_intersectionPairsWith
     [0.15, 0, - 0.15, 0.6, - 0.6, 0.3, - 0.3, 0.9, - 0.9, 1.1, - 1.1]
     (0, - 4) (1, 0) [] example_world []))
   = bodies example_world @
     [(Fixed, \<lparr>rb_handle = 2,
         rb_translation = Vector2_add (0, - 4)
           (Vector2_scale (Vector2_rotate (1, 0) 0.15) (0.3 + 2 * 0.15 + 0.001)),
         rb_linvel = (0, 0), rb_rotation = 0.15\<rparr>)]"
proof -
  let ?c1 = "Vector2_add (0, - 4)
      (Vector2_scale (Vector2_rotate (1, 0) 0.15) (0.3 + 2 * 0.15 + 0.001))"
  have len0: "length (colliders example_world) = 2" "length (bodies example_world) = 2"
    by (simp_all add: example_world_def)
  have r1: "wouldOverlapWithHistory world_intersectionPairsWith example_world A B ?c1 0.15 =
      (example_world\<lparr>bodies := bodies example_world @ [(Fixed, \<lparr>rb_handle = 2,
            rb_translation = ?c1, rb_linvel = (0, 0), rb_rotation = 0.15\<rparr>)],
         colliders := colliders example_world @
           [\<lparr>co_handle = 2, co_parent = 2,
             co_shape = CuboidShape 0.6 0.15, co_sensor = False, co_enabled = True,
             co_activeCollisionTypes = DYNAMIC_FIXED, co_restitution = 1.1\<rparr>]\<rparr>,
       Some \<lparr>rb_handle = 2, rb_translation = ?c1, rb_linvel = (0, 0), rb_rotation = 0.15\<rparr>)"
    for A B
    unfolding candidate_armed [OF example_world_ok] len0 ..
  have p1: "plank_pose (0, - 4) (1, 0) 0.15 = (Vector2_rotate (1, 0) 0.15, ?c1,
      fst (snd (snd (plank_pose (0, - 4) (1, 0) 0.15))),
      snd (snd (snd (plank_pose (0, - 4) (1, 0) 0.15))))"
    by (simp add: plank_pose_eq)
  show ?thesis
    unfolding placePlankForNote_loop_def normalize_unit
    apply (subst place_loop.simps, subst p1)
    apply (simp only: r1 prod.case option.case set_simps empty_iff if_False fst_conv)
    apply simp
    done
qed

text \<open>
  C4 fails on the code, in \<open>placePlankForNote\<close>. The ball is at (0, -4) and moves
  along (1, 0); the angles come in the order 0.15, 0, ... and none is excluded.

  The first candidate has the offset 0.15. Its body has the rotation 0.15 and lies
  along the velocity direction rotated by 0.15, as the claim says, but at the distance
  0.601 from the ball: the code multiplies by 0.3 + 0.15 * 2 + 0.001, twice the half
  width. The claim has 0.3 + 0.15 + 0.001, the distance that \<open>tryPlacePlank\<close> uses
  for the same ball.

  The direction is also rotated in place: \<open>direction.rotate(angle)\<close> changes
  \<open>direction\<close> itself, so that a candidate tried after a rejected one is placed
  along the accumulated rotation. The loop is written for the rejection of a candidate;
  asked as it is, before any step of the world, the engine reports nothing for a new
  collider, and the answer that rejects the first candidate is \<open>second_only\<close>
  here. With it the second candidate, of offset 0, is placed along the direction that
  has already been rotated by 0.15: by the claim its centre is on the line through the
  ball along (1, 0), at height -4, and the body the code creates (rotation 0) is not at
  that height.
\<close>

theorem candidate_pose_off:
  "bodies (fst (placePlankForNote_loop world_intersectionPairsWith
      [0.15, 0, - 0.15, 0.6, - 0.6, 0.3, - 0.3, 0.9, - 0.9, 1.1, - 1.1]
      (0, - 4) (1, 0) [] example_world []))
     = bodies example_world @
       [(Fixed, \<lparr>rb_handle = 2,
           rb_translation = Vector2_add (0, - 4)
             (Vector2_scale (Vector2_rotate (Vector2_normalize (1, 0)) 0.15) 0.601),
           rb_linvel = (0, 0), rb_rotation = 0.15\<rparr>)]
   \<and> Vector2_add (0, - 4)
        (Vector2_scale (Vector2_rotate (Vector2_normalize (1, 0)) 0.15) 0.601)
       \<noteq> Vector2_add (0, - 4)
        (Vector2_scale (Vector2_rotate (Vector2_normalize (1, 0)) 0.15) (0.3 + 0.15 + 0.001))
   \<and> fst (tryPlacePlank_pose (0, - 4) (1, 0) (Some 0.15))
       = Some (Vector2_add (0, - 4)
           (Vector2_scale (rotateVector (normalizeVector (1, 0)) 0.15) (0.3 + 0.15 + 0.001)))
   \<and> rb_rotation (snd (bodies (fst (placePlankForNote_loop second_only
        [0.15, 0, - 0.15, 0.6, - 0.6, 0.3, - 0.3, 0.9, - 0.9, 1.1, - 1.1]
        (0, - 4) (1, 0) [] example_world [])) ! 3)) = 0
   \<and> snd (rb_translation (snd (bodies (fst (placePlankForNote_loop second_only
        [0.15, 0, - 0.15, 0.6, - 0.6, 0.3, - 0.3, 0.9, - 0.9, 1.1, - 1.1]
        (0, - 4) (1, 0) [] example_world [])) ! 3))) \<noteq> - 4
   \<and> snd (Vector2_add (0, - 4) (Vector2_scale (Vector2_rotate (Vector2_normalize (1, 0)) 0) d))
       = - 4"
proof -
  have 1: "bodies (fst (placePlankForNote_loop world_intersectionPairsWith
      [0.15, 0, - 0.15, 0.6, - 0.6, 0.3, - 0.3, 0.9, - 0.9, 1.1, - 1.1]
      (0, - 4) (1, 0) [] example_world []))
     = bodies example_world @
       [(Fixed, \<lparr>rb_handle = 2,
           rb_translation = Vector2_add (0, - 4)
             (Vector2_scale (Vector2_rotate (Vector2_normalize (1, 0)) 0.15) 0.601),
           rb_linvel = (0, 0), rb_rotation = 0.15\<rparr>)]"
    unfolding first_candidate_bodies normalize_unit by simp
  have 2: "Vector2_add (0, - 4)
        (Vector2_scale (Vector2_rotate (Vector2_normalize (1, 0)) 0.15) 0.601)
       \<noteq> Vector2_add (0, - 4)
        (Vector2_scale (Vector2_rotate (Vector2_normalize (1, 0)) 0.15) (0.3 + 0.15 + 0.001))"
    using sin_015
    by (simp add: normalize_unit Vector2_rotate_def Vector2_add_def Vector2_scale_def)
  have 3: "fst (tryPlacePlank_pose (0, - 4) (1, 0) (Some 0.15))
       = Some (Vector2_add (0, - 4)
           (Vector2_scale (rotateVector (normalizeVector (1, 0)) 0.15) (0.3 + 0.15 + 0.001)))"
    by (simp add: tryPlacePlank_pose_def Let_def Vector2_add_def Vector2_scale_def
        BALL_RADIUS_def PLANK_WIDTH_def)
  have 4: "rb_rotation (snd (bodies (fst (placePlankForNote_loop second_only
        [0.15, 0, - 0.15, 0.6, - 0.6, 0.3, - 0.3, 0.9, - 0.9, 1.1, - 1.1]
        (0, - 4) (1, 0) [] example_world [])) ! 3)) = 0
   \<and> snd (rb_translation (snd (bodies (fst (placePlankForNote_loop second_only
        [0.15, 0, - 0.15, 0.6, - 0.6, 0.3, - 0.3, 0.9, - 0.9, 1.1, - 1.1]
        (0, - 4) (1, 0) [] example_world [])) ! 3))) \<noteq> - 4"
    unfolding second_candidate_bodies
    using sin_015
    by (simp add: example_world_def Vector2_rotate_def Vector2_add_def Vector2_scale_def)
  have 5: "snd (Vector2_add (0, - 4)
      (Vector2_scale (Vector2_rotate (Vector2_normalize (1, 0)) 0) d)) = - 4"
    by (simp add: normalize_unit Vector2_rotate_def Vector2_add_def Vector2_scale_def)
  show ?thesis using 1 2 3 4 5 by blast
qed


end
